theory Spec2Isabelle
  imports Main
begin

section \<open>Python strings\<close>

text \<open>
  A Python \<^verbatim>\<open>str\<close> is a sequence of Unicode code points, and \<^verbatim>\<open>len\<close> counts code
  points.  A string is therefore modelled as a list of code points (natural numbers);
  \<open>str\<close> turns an ASCII literal of the source into such a list.
\<close>

type_synonym ustring = "nat list"

definition str :: "string \<Rightarrow> ustring" where
  "str s = map of_char s"

text \<open>
  \<^verbatim>\<open>str.isspace\<close> for one code point: the whitespace table of CPython
  (\<^verbatim>\<open>_PyUnicode_IsWhitespace\<close>), which is what \<^verbatim>\<open>strip()\<close> and \<^verbatim>\<open>split()\<close> without
  arguments use.
\<close>

definition isspace :: "nat \<Rightarrow> bool" where
  "isspace c \<longleftrightarrow>
     (9 \<le> c \<and> c \<le> 13) \<or> (28 \<le> c \<and> c \<le> 32) \<or> c = 133 \<or> c = 160 \<or> c = 5760 \<or>
     (8192 \<le> c \<and> c \<le> 8202) \<or> c = 8232 \<or> c = 8233 \<or> c = 8239 \<or> c = 8287 \<or>
     c = 12288"

text \<open>
  The line boundaries of \<^verbatim>\<open>str.splitlines\<close> (\<^verbatim>\<open>_PyUnicode_IsLinebreak\<close>); the pair
  CR LF counts as one boundary.
\<close>

definition islinebreak :: "nat \<Rightarrow> bool" where
  "islinebreak c \<longleftrightarrow>
     (10 \<le> c \<and> c \<le> 13) \<or> (28 \<le> c \<and> c \<le> 30) \<or> c = 133 \<or> c = 8232 \<or> c = 8233"

definition lstrip :: "ustring \<Rightarrow> ustring" where
  "lstrip s = dropWhile isspace s"

definition rstrip :: "ustring \<Rightarrow> ustring" where
  "rstrip s = rev (dropWhile isspace (rev s))"

definition strip :: "ustring \<Rightarrow> ustring" where
  "strip s = lstrip (rstrip s)"

definition startswith :: "ustring \<Rightarrow> ustring \<Rightarrow> bool" where
  "startswith s p \<longleftrightarrow> take (length p) s = p"

text \<open>
  \<^verbatim>\<open>s.replace(old, new)\<close>: the occurrences of \<open>old\<close> are found from left to right and do
  not overlap; with an empty \<open>old\<close>, \<open>new\<close> is inserted around every character.
\<close>

function py_replace :: "ustring \<Rightarrow> ustring \<Rightarrow> ustring \<Rightarrow> ustring" where
  "py_replace old new [] = (if old = [] then new else [])"
| "py_replace old new (c # cs) =
     (if old = [] then new @ c # py_replace old new cs
      else if startswith (c # cs) old
        then new @ py_replace old new (drop (length old) (c # cs))
      else c # py_replace old new cs)"
  by pat_completeness auto
termination
  by (relation "measure (\<lambda>(old, new, s). length s)") auto

text \<open>\<^verbatim>\<open>sep.join(xs)\<close>.\<close>

fun join :: "ustring \<Rightarrow> ustring list \<Rightarrow> ustring" where
  "join sep [] = []"
| "join sep [x] = x"
| "join sep (x # y # ys) = x @ sep @ join sep (y # ys)"

text \<open>
  A slice \<^verbatim>\<open>xs[:n]\<close> with a Python integer \<open>n\<close>: the first \<open>n\<close> elements, and for a
  negative \<open>n\<close> all but the last \<open>-n\<close>.
\<close>

definition slice_to :: "int \<Rightarrow> 'a list \<Rightarrow> 'a list" where
  "slice_to n xs = (if 0 \<le> n then take (nat n) xs else take (length xs - nat (- n)) xs)"

text \<open>
  \<^verbatim>\<open>s.split(sep)\<close> with a separator: the pieces between the occurrences of \<open>sep\<close>,
  empty pieces included.  The source passes the literals \<^verbatim>\<open>"|"\<close> and \<^verbatim>\<open>"\n\n"\<close> only
  (an empty separator, which raises \<^verbatim>\<open>ValueError\<close> in Python, never occurs).
\<close>

function split_acc :: "ustring \<Rightarrow> ustring \<Rightarrow> ustring \<Rightarrow> ustring list" where
  "split_acc sep acc [] = [acc]"
| "split_acc sep acc (c # cs) =
     (if sep \<noteq> [] \<and> startswith (c # cs) sep
        then acc # split_acc sep [] (drop (length sep) (c # cs))
      else split_acc sep (acc @ [c]) cs)"
  by pat_completeness auto
termination
  by (relation "measure (\<lambda>(sep, acc, s). length s)") auto

definition py_split :: "ustring \<Rightarrow> ustring \<Rightarrow> ustring list" where
  "py_split s sep = split_acc sep [] s"

text \<open>\<^verbatim>\<open>s.split()\<close>: the maximal runs of characters that are not whitespace.\<close>

fun split_ws_acc :: "ustring \<Rightarrow> ustring \<Rightarrow> ustring list" where
  "split_ws_acc acc [] = (if acc = [] then [] else [acc])"
| "split_ws_acc acc (c # cs) =
     (if isspace c then (if acc = [] then split_ws_acc [] cs else acc # split_ws_acc [] cs)
      else split_ws_acc (acc @ [c]) cs)"

definition split_ws :: "ustring \<Rightarrow> ustring list" where
  "split_ws s = split_ws_acc [] s"

text \<open>
  \<^verbatim>\<open>s.splitlines()\<close>: the lines without their line boundaries; a boundary at the very
  end opens no further line.
\<close>

fun splitlines_acc :: "ustring \<Rightarrow> ustring \<Rightarrow> ustring list" where
  "splitlines_acc acc [] = (if acc = [] then [] else [acc])"
| "splitlines_acc acc [c] = (if islinebreak c then [acc] else [acc @ [c]])"
| "splitlines_acc acc (c # d # cs) =
     (if c = 13 \<and> d = 10 then acc # splitlines_acc [] cs
      else if islinebreak c then acc # splitlines_acc [] (d # cs)
      else splitlines_acc (acc @ [c]) (d # cs))"

definition splitlines :: "ustring \<Rightarrow> ustring list" where
  "splitlines s = splitlines_acc [] s"

text \<open>A non-negative Python integer formatted in an f-string: its decimal digits.\<close>

function show_nat :: "nat \<Rightarrow> ustring" where
  "show_nat n = (if n < 10 then [48 + n] else show_nat (n div 10) @ [48 + n mod 10])"
  by pat_completeness auto
termination
  by (relation "measure id") auto

declare show_nat.simps [simp del]

section \<open>Parsing the model's reply (utils.py)\<close>

subsection \<open>Flashcards\<close>

text \<open>
  A card is the dictionary \<^verbatim>\<open>{"question": ..., "answer": ...}\<close>.  The loop of
  \<^verbatim>\<open>generate_flashcards\<close> keeps the cards found so far and the pending question, which is
  \<open>None\<close> or a string; \<^verbatim>\<open>and question\<close> is Python's truth test, false for \<open>None\<close> and
  for the empty string.
\<close>

record flashcard =
  card_question :: ustring
  card_answer :: ustring

definition flashcards_step ::
  "ustring \<Rightarrow> flashcard list \<times> ustring option \<Rightarrow> flashcard list \<times> ustring option" where
  "flashcards_step raw_line st =
     (let line = strip raw_line; cards = fst st; question = snd st in
      if startswith line (str ''Q:'') then (cards, Some (strip (drop 2 line)))
      else (case question of
              None \<Rightarrow> (cards, question)
            | Some q \<Rightarrow>
                if startswith line (str ''A:'') \<and> q \<noteq> []
                  then (cards @ [\<lparr>card_question = q, card_answer = strip (drop 2 line)\<rparr>], None)
                else (cards, question)))"

text \<open>
  One round of the \<^verbatim>\<open>for\<close> loop is the step and then the test
  \<^verbatim>\<open>if len(cards) >= n: break\<close>.
\<close>

fun flashcards_loop ::
  "int \<Rightarrow> flashcard list \<times> ustring option \<Rightarrow> ustring list \<Rightarrow> flashcard list" where
  "flashcards_loop n st [] = fst st"
| "flashcards_loop n st (raw_line # rest) =
     (let st' = flashcards_step raw_line st in
      if n \<le> int (length (fst st')) then fst st' else flashcards_loop n st' rest)"

text \<open>
  \<^verbatim>\<open>generate_flashcards\<close> from the line after the model call on: \<open>text\<close> is what
  \<^verbatim>\<open>call_openai\<close> returned.
\<close>

definition generate_flashcards :: "ustring \<Rightarrow> int \<Rightarrow> flashcard list" where
  "generate_flashcards text n = slice_to n (flashcards_loop n ([], None) (splitlines text))"

subsection \<open>Quiz\<close>

record quiz_item =
  quiz_question :: ustring
  quiz_options :: "ustring list"
  quiz_answer :: ustring

text \<open>
  The tokens of an \<^verbatim>\<open>Options:\<close> line: a bar is put before every marker, the text is split
  at the bars, and the empty tokens are dropped.
\<close>

definition option_tokens :: "ustring \<Rightarrow> ustring list" where
  "option_tokens opts_text =
     filter (\<lambda>t. t \<noteq> [])
       (py_split
          (py_replace (str ''D)'') (str ''|D)'')
            (py_replace (str ''C)'') (str ''|C)'')
              (py_replace (str ''B)'') (str ''|B)'')
                (py_replace (str ''A)'') (str ''|A)'') opts_text))))
          (str ''|''))"

definition option_of_token :: "ustring \<Rightarrow> ustring" where
  "option_of_token tok =
     (let t = strip tok in
      if 2 \<le> length t \<and> t ! 1 = 41 then strip (drop 2 t) else t)"

definition parse_options :: "ustring \<Rightarrow> ustring list" where
  "parse_options opts_text = map option_of_token (option_tokens opts_text)"

definition quiz_step ::
  "ustring \<Rightarrow> quiz_item list \<times> ustring option \<times> ustring list \<Rightarrow>
   quiz_item list \<times> ustring option \<times> ustring list" where
  "quiz_step raw_line st =
     (let line = strip raw_line; quizzes = fst st; question = fst (snd st);
          options = snd (snd st) in
      if startswith line (str ''Q:'') then (quizzes, Some (strip (drop 2 line)), options)
      else if startswith line (str ''Options:'')
        then (quizzes, question, parse_options (strip (drop 8 line)))
      else (case question of
              None \<Rightarrow> st
            | Some q \<Rightarrow>
                if startswith line (str ''Answer:'') \<and> q \<noteq> []
                  then (quizzes @ [\<lparr>quiz_question = q, quiz_options = take 4 options,
                                     quiz_answer = strip (drop 7 line)\<rparr>], None, [])
                else st))"

fun quiz_loop ::
  "int \<Rightarrow> quiz_item list \<times> ustring option \<times> ustring list \<Rightarrow> ustring list \<Rightarrow>
   quiz_item list" where
  "quiz_loop n st [] = fst st"
| "quiz_loop n st (raw_line # rest) =
     (let st' = quiz_step raw_line st in
      if n \<le> int (length (fst st')) then fst st' else quiz_loop n st' rest)"

definition generate_quiz :: "ustring \<Rightarrow> int \<Rightarrow> quiz_item list" where
  "generate_quiz text n = slice_to n (quiz_loop n ([], None, []) (splitlines text))"

section \<open>CSV export and scoring (app.py)\<close>



text \<open>
  \<^verbatim>\<open>csv_escape(text)\<close> is
  \<^verbatim>\<open>(text or "").replace('"', '""').replace("\n", " ").strip()\<close>.  An argument that
  may be \<open>None\<close> goes through \<open>or_empty\<close> first.
\<close>

definition or_empty :: "ustring option \<Rightarrow> ustring" where
  "or_empty t = (case t of None \<Rightarrow> [] | Some s \<Rightarrow> s)"

definition csv_escape :: "ustring \<Rightarrow> ustring" where
  "csv_escape text = strip (py_replace [10] [32] (py_replace [34] [34, 34] text))"

text \<open>The line the flashcard export writes for one card.\<close>

definition flashcard_csv_row :: "flashcard \<Rightarrow> ustring" where
  \<open>flashcard_csv_row c =
     str ''"'' @ csv_escape (card_question c) @ str ''","'' @ csv_escape (card_answer c) @
     str ''"'' @ [10]\<close>

text \<open>
  The radio button shows a placeholder before the options; the stored answer is \<open>None\<close>
  when the placeholder is the choice, and the chosen option otherwise.
\<close>

definition placeholder :: ustring where
  "placeholder = [8212] @ str '' Select an answer '' @ [8212]"

definition stored_answer :: "ustring \<Rightarrow> ustring option" where
  "stored_answer choice = (if choice = placeholder then None else Some choice)"

text \<open>Scoring one item: \<^verbatim>\<open>"Correct" if user_ans == correct else "Wrong"\<close>.\<close>

definition quiz_result :: "ustring option \<Rightarrow> quiz_item \<Rightarrow> ustring" where
  "quiz_result user_ans q =
     (if user_ans = Some (quiz_answer q) then str ''Correct'' else str ''Wrong'')"

text \<open>
  The line the quiz export writes for one item: the three fields are escaped, put into
  the row, and every pair of double quotes of the finished row is replaced by one.
\<close>

definition quiz_csv_row :: "quiz_item \<Rightarrow> ustring option \<Rightarrow> ustring" where
  \<open>quiz_csv_row q user_ans =
     (let qtext_csv = csv_escape (quiz_question q);
          user_csv = csv_escape (or_empty user_ans);
          corr_csv = csv_escape (quiz_answer q);
          result = quiz_result user_ans q in
      py_replace (str ''""'') (str ''"'')
        (str ''"'' @ qtext_csv @ str ''",""'' @ user_csv @ str ''"",""'' @ corr_csv @
         str ''"",""'' @ result @ str ''""'' @ [10]))\<close>

section \<open>The diagram of the summary (app.py)\<close>

text \<open>
  \<open>break_at a s\<close>: the text before and the text after the first \<open>a\<close> in \<open>s\<close>;
  \<open>find_sub p s\<close>: the same for the first occurrence of the non-empty text \<open>p\<close>.
\<close>

fun break_at :: "nat \<Rightarrow> ustring \<Rightarrow> (ustring \<times> ustring) option" where
  "break_at a [] = None"
| "break_at a (c # cs) =
     (if c = a then Some ([], cs)
      else (case break_at a cs of None \<Rightarrow> None | Some (l, r) \<Rightarrow> Some (c # l, r)))"

fun find_sub :: "ustring \<Rightarrow> ustring \<Rightarrow> (ustring \<times> ustring) option" where
  "find_sub p [] = None"
| "find_sub p (c # cs) =
     (if startswith (c # cs) p then Some ([], drop (length p) (c # cs))
      else (case find_sub p cs of None \<Rightarrow> None | Some (l, r) \<Rightarrow> Some (c # l, r)))"

lemma break_at_length: "break_at a s = Some (l, r) \<Longrightarrow> length r < length s"
  by (induction s arbitrary: l) (auto split: if_splits option.splits)

lemma find_sub_length: "find_sub p s = Some (l, r) \<Longrightarrow> length r \<le> length s"
  by (induction s arbitrary: l) (auto split: if_splits option.splits)

text \<open>
  \<^verbatim>\<open>re.findall(r"<p[^>]*>(.*?)</p>", s, flags=re.S)\<close>: a match starts at \<^verbatim>\<open><p\<close>, runs
  over the characters other than \<^verbatim>\<open>>\<close> to the first \<^verbatim>\<open>>\<close>, and its group is the shortest
  text up to the next \<^verbatim>\<open></p>\<close>; the search goes on after the match.  Where no match
  starts, the search moves one character on.
\<close>

function findall_p :: "ustring \<Rightarrow> ustring list" where
  "findall_p [] = []"
| "findall_p (c # cs) =
     (if startswith (c # cs) (str ''<p'') then
        (case break_at 62 (drop 2 (c # cs)) of
           None \<Rightarrow> findall_p cs
         | Some (attrs, body) \<Rightarrow>
             (case find_sub (str ''</p>'') body of
                None \<Rightarrow> findall_p cs
              | Some (inner, rest) \<Rightarrow> inner # findall_p rest))
      else findall_p cs)"
  by pat_completeness auto
termination
proof (relation "measure length")
  fix c cs x2 attrs body x2a inner rest
  assume "break_at 62 (drop 2 (c # cs)) = Some x2" and "(attrs, body) = x2"
    and "find_sub (str ''</p>'') body = Some x2a" and "(inner, rest) = x2a"
  then have "length body < length (drop 2 (c # cs))" and "length rest \<le> length body"
    using break_at_length [of 62 "drop 2 (c # cs)" attrs body]
      find_sub_length [of "str ''</p>''" body inner rest] by auto
  then show "(rest, c # cs) \<in> measure length" by simp
qed auto

text \<open>
  \<^verbatim>\<open>re.sub(r"<[^>]+>", "", text)\<close>: a tag is \<^verbatim>\<open><\<close>, at least one character other than
  \<^verbatim>\<open>>\<close>, and the first \<^verbatim>\<open>>\<close> after them.
\<close>

function strip_html :: "ustring \<Rightarrow> ustring" where
  "strip_html [] = []"
| "strip_html (c # cs) =
     (if c = 60 then
        (case break_at 62 cs of
           None \<Rightarrow> c # strip_html cs
         | Some (tag, rest) \<Rightarrow> if tag \<noteq> [] then strip_html rest else c # strip_html cs)
      else c # strip_html cs)"
  by pat_completeness auto
termination
proof (relation "measure length")
  fix c cs x2 tag rest
  assume "break_at 62 cs = Some x2" and "(tag, rest) = x2"
  then have "length rest < length cs"
    using break_at_length [of 62 cs tag rest] by auto
  then show "(rest, c # cs) \<in> measure length" by simp
qed auto

definition split_paragraphs :: "ustring \<Rightarrow> ustring list" where
  "split_paragraphs summary_html =
     (let found = findall_p summary_html;
          paras = (if found = []
                   then map strip (filter (\<lambda>p. strip p \<noteq> []) (py_split summary_html [10, 10]))
                   else found)
      in map (\<lambda>p. strip (strip_html p)) (take 3 paras))"

text \<open>
  \<^verbatim>\<open>re.split(r"(?<=[.!?])\\s+", s)\<close>.  In the raw string the pattern after the
  look-behind is \<^verbatim>\<open>\\s+\<close>: an escaped backslash and then one or more letters \<^verbatim>\<open>s\<close>.  A
  match is therefore a backslash followed by a run of \<^verbatim>\<open>s\<close>, right after one of
  \<^verbatim>\<open>.\<close>, \<^verbatim>\<open>!\<close>, \<^verbatim>\<open>?\<close>.  \<open>after_punct\<close> says whether the character before the
  current position is one of the three.
\<close>

function sentence_split :: "bool \<Rightarrow> ustring \<Rightarrow> ustring \<Rightarrow> ustring list" where
  "sentence_split after_punct acc [] = [acc]"
| "sentence_split after_punct acc (c # cs) =
     (if after_punct \<and> c = 92 \<and> startswith cs [115]
        then acc # sentence_split False [] (dropWhile (\<lambda>x. x = 115) cs)
      else sentence_split (c = 46 \<or> c = 33 \<or> c = 63) (acc @ [c]) cs)"
  by pat_completeness auto
termination
  by (relation "measure (\<lambda>(p, acc, s). length s)")
    (auto simp: le_imp_less_Suc length_dropWhile_le)

definition sentences :: "ustring \<Rightarrow> ustring list" where
  "sentences s =
     map strip (filter (\<lambda>p. strip p \<noteq> []) (sentence_split False [] (strip s)))"

definition shorten :: "ustring \<Rightarrow> int \<Rightarrow> ustring" where
  "shorten sentence max_words =
     (let words = split_ws sentence in
      join [32] (slice_to max_words words) @
      (if max_words < int (length words) then [8230] else []))"

text \<open>
  \<^verbatim>\<open>_wrap_label\<close>: the loop keeps the finished lines and the line under construction;
  the lines are joined by a backslash and the letter \<^verbatim>\<open>n\<close>.
\<close>

fun wrap_loop :: "int \<Rightarrow> ustring list \<times> ustring \<Rightarrow> ustring list \<Rightarrow> ustring list \<times> ustring" where
  "wrap_loop max_len st [] = st"
| "wrap_loop max_len st (w # ws) =
     (let lines = fst st; line = snd st in
      if int (length line) + int (length w) + (if line \<noteq> [] then 1 else 0) \<le> max_len
        then wrap_loop max_len (lines, strip (line @ [32] @ w)) ws
      else wrap_loop max_len (lines @ [line], w) ws)"

definition wrap_lines :: "ustring \<Rightarrow> int \<Rightarrow> ustring list" where
  "wrap_lines text max_len =
     (let st = wrap_loop max_len ([], []) (split_ws text); lines = fst st; line = snd st in
      if line \<noteq> [] then lines @ [line] else lines)"

definition wrap_label :: "ustring \<Rightarrow> int \<Rightarrow> ustring" where
  "wrap_label text max_len = join [92, 110] (wrap_lines text max_len)"

definition heads :: "ustring list" where
  "heads =
     [str ''Definition & Building Blocks'',
      str ''Architecture '' @ [8226] @ str '' Security '' @ [8226] @ str '' Ops'',
      str ''Use Cases '' @ [8226] @ str '' Benefits '' @ [8226] @ str '' Costs'']"

text \<open>
  The lines of the graph text, one definition for each f-string of \<^verbatim>\<open>build_summary_dot\<close>.
\<close>

definition graph_line :: "ustring \<Rightarrow> ustring" where
  \<open>graph_line orientation =
     str ''graph [rankdir='' @ orientation @
     str '', splines=true, overlap=false, nodesep=0.4, ranksep=0.7, margin=0.1];''\<close>

definition node_defaults :: ustring where
  \<open>node_defaults =
     str ''node [shape=box, style=filled, fillcolor="#111827", color="#3b82f6", fontname="Helvetica", fontsize=11, fontcolor="#e5e7eb"];''\<close>

definition root_node :: "ustring \<Rightarrow> ustring" where
  \<open>root_node label =
     str ''root [label="'' @ label @
     str ''", shape=oval, fillcolor="#1f2937", fontsize=14, penwidth=2, color="#60a5fa"];''\<close>

definition branch_node :: "ustring \<Rightarrow> ustring \<Rightarrow> ustring" where
  \<open>branch_node bid label =
     bid @ str '' [label="'' @ label @
     str ''", fillcolor="#0b1320", fontsize=12, color="#93c5fd"];''\<close>

definition leaf_node :: "ustring \<Rightarrow> ustring \<Rightarrow> ustring" where
  \<open>leaf_node lid label =
     lid @ str '' [label="'' @ label @ str ''", fillcolor="#0f172a", color="#334155"];''\<close>

definition edge :: "ustring \<Rightarrow> ustring \<Rightarrow> ustring" where
  "edge a b = a @ str '' -> '' @ b @ str '';''"

text \<open>The inner loop: the node of leaf \<open>j\<close> of branch \<open>i\<close> and the edge from the branch.\<close>

definition leaf_lines :: "int \<Rightarrow> ustring \<Rightarrow> nat \<Rightarrow> nat \<times> ustring \<Rightarrow> ustring list" where
  "leaf_lines wrap_len bid i js =
     (let j = fst js; sent = snd js; lid = str ''l'' @ show_nat i @ str ''_'' @ show_nat j in
      [leaf_node lid (wrap_label (shorten sent 12) wrap_len), edge bid lid])"

text \<open>
  The outer loop: the node of branch \<open>i\<close>, the edge from the root and, when the summary
  has a paragraph \<open>i\<close>, the leaves of its first \<open>leaves_per_para\<close> sentences.
\<close>

definition branch_lines :: "ustring list \<Rightarrow> int \<Rightarrow> int \<Rightarrow> nat \<times> ustring \<Rightarrow> ustring list" where
  "branch_lines paras leaves_per_para wrap_len ih =
     (let i = fst ih; head = snd ih; bid = str ''b'' @ show_nat i in
      [branch_node bid (wrap_label head wrap_len), edge (str ''root'') bid] @
      (if i < length paras
       then concat (map (leaf_lines wrap_len bid i)
              (enumerate 0 (slice_to leaves_per_para (sentences (paras ! i)))))
       else []))"

definition build_summary_lines ::
  "ustring \<Rightarrow> ustring \<Rightarrow> int \<Rightarrow> int \<Rightarrow> ustring \<Rightarrow> ustring list" where
  "build_summary_lines topic summary_html leaves_per_para wrap_len orientation =
     (let paras = split_paragraphs summary_html in
      [str ''digraph G {'', graph_line orientation, node_defaults,
       root_node (wrap_label topic wrap_len)] @
      concat (map (branch_lines paras leaves_per_para wrap_len) (enumerate 0 heads)) @
      [str ''}''])"

definition build_summary_dot ::
  "ustring \<Rightarrow> ustring \<Rightarrow> int \<Rightarrow> int \<Rightarrow> ustring \<Rightarrow> ustring" where
  "build_summary_dot topic summary_html leaves_per_para wrap_len orientation =
     join [10] (build_summary_lines topic summary_html leaves_per_para wrap_len orientation)"

section \<open>Well-formed graph text\<close>

text \<open>
  The graph text is written in the DOT language.  Its tokens are the identifiers (a
  name, a numeral, or a double-quoted string, in which a backslash escapes a double
  quote or a backslash), the brackets, \<^verbatim>\<open>=\<close>, \<^verbatim>\<open>,\<close>, \<^verbatim>\<open>;\<close> and the edge operator
  \<^verbatim>\<open>->\<close>; whitespace separates tokens.  A character that starts no token gives the
  token \<open>TBad\<close>, with which no graph is well formed.
\<close>

datatype token =
  TId ustring | TStr ustring | LBrace | RBrace | LBrack | RBrack | TEq | TComma | TSemi
  | TArrow | TBad

text \<open>
  \<open>qstring s\<close> reads a quoted string after its opening quote: the content and the text
  after the closing quote, or \<open>None\<close> when the string is not closed.
\<close>

fun qstring :: "ustring \<Rightarrow> (ustring \<times> ustring) option" where
  "qstring [] = None"
| "qstring [c] = (if c = 34 then Some ([], []) else None)"
| "qstring (c # d # cs) =
     (if c = 34 then Some ([], d # cs)
      else if c = 92 \<and> (d = 34 \<or> d = 92)
        then (case qstring cs of None \<Rightarrow> None | Some (a, r) \<Rightarrow> Some (c # d # a, r))
      else (case qstring (d # cs) of None \<Rightarrow> None | Some (a, r) \<Rightarrow> Some (c # a, r)))"

definition is_dot_space :: "nat \<Rightarrow> bool" where
  "is_dot_space c \<longleftrightarrow> c = 32 \<or> (9 \<le> c \<and> c \<le> 13)"

definition is_digit :: "nat \<Rightarrow> bool" where
  "is_digit c \<longleftrightarrow> 48 \<le> c \<and> c \<le> 57"

definition is_alpha :: "nat \<Rightarrow> bool" where
  "is_alpha c \<longleftrightarrow> (65 \<le> c \<and> c \<le> 90) \<or> (97 \<le> c \<and> c \<le> 122) \<or> c = 95"

definition is_id_char :: "nat \<Rightarrow> bool" where
  "is_id_char c \<longleftrightarrow> is_alpha c \<or> is_digit c \<or> c = 46"

text \<open>
  An unquoted identifier is a name (letters, digits and underscores, not starting with a
  digit) or a numeral (digits with at most one point).
\<close>

definition valid_id :: "ustring \<Rightarrow> bool" where
  "valid_id w \<longleftrightarrow>
     (case w of [] \<Rightarrow> False | c # _ \<Rightarrow> is_alpha c) \<and> list_all (\<lambda>c. is_alpha c \<or> is_digit c) w \<or>
     list_all (\<lambda>c. is_digit c \<or> c = 46) w \<and> length (filter (\<lambda>c. c = 46) w) \<le> 1 \<and>
       filter is_digit w \<noteq> []"

lemma qstring_length: "qstring s = Some (a, r) \<Longrightarrow> length r < length s"
  by (induction s arbitrary: a rule: qstring.induct) (auto split: if_splits option.splits)

function dot_tokens :: "ustring \<Rightarrow> token list" where
  "dot_tokens [] = []"
| "dot_tokens (c # cs) =
     (if is_dot_space c then dot_tokens cs
      else if c = 123 then LBrace # dot_tokens cs
      else if c = 125 then RBrace # dot_tokens cs
      else if c = 91 then LBrack # dot_tokens cs
      else if c = 93 then RBrack # dot_tokens cs
      else if c = 61 then TEq # dot_tokens cs
      else if c = 44 then TComma # dot_tokens cs
      else if c = 59 then TSemi # dot_tokens cs
      else if c = 45 then
        (case cs of [] \<Rightarrow> [TBad] | d # ds \<Rightarrow> if d = 62 then TArrow # dot_tokens ds else [TBad])
      else if c = 34 then
        (case qstring cs of None \<Rightarrow> [TBad] | Some (a, r) \<Rightarrow> TStr a # dot_tokens r)
      else if is_id_char c then
        (if valid_id (c # takeWhile is_id_char cs) then TId (c # takeWhile is_id_char cs)
         else TBad) # dot_tokens (dropWhile is_id_char cs)
      else [TBad])"
  by pat_completeness auto
termination
proof (relation "measure length")
  fix c cs x2 a r
  assume "qstring cs = Some x2" and "(a, r) = x2"
  then have "length r < length cs"
    using qstring_length [of cs a r] by simp
  then show "(r, c # cs) \<in> measure length" by simp
qed (auto simp: le_imp_less_Suc length_dropWhile_le)

text \<open>
  The statements of a graph without subgraphs and ports, read token by token: a node
  with its attribute lists, an edge chain with its attribute lists, or an assignment;
  a semicolon may end a statement; an attribute list is \<^verbatim>\<open>[\<close>, assignments that a comma
  or a semicolon may separate, and \<^verbatim>\<open>]\<close>.
\<close>

datatype pstate =
  AtStart | AfterDigraph | AfterName | StmtStart | AfterNode | AfterArrow | AfterTarget
  | AfterAssign | AfterAssignValue | AttrStart | AfterAttrName | AfterAttrEq | AfterAttrValue
  | AfterAttrList | AtEnd

definition is_id_tok :: "token \<Rightarrow> bool" where
  "is_id_tok t = (case t of TId w \<Rightarrow> True | TStr w \<Rightarrow> True | _ \<Rightarrow> False)"

fun dot_step :: "pstate \<Rightarrow> token \<Rightarrow> pstate option" where
  "dot_step AtStart t =
     (if t = TId (str ''digraph'') \<or> t = TId (str ''graph'') then Some AfterDigraph else None)"
| "dot_step AfterDigraph t =
     (if is_id_tok t then Some AfterName else if t = LBrace then Some StmtStart else None)"
| "dot_step AfterName t = (if t = LBrace then Some StmtStart else None)"
| "dot_step StmtStart t =
     (if is_id_tok t then Some AfterNode else if t = RBrace then Some AtEnd else None)"
| "dot_step AfterNode t =
     (if t = LBrack then Some AttrStart else if t = TArrow then Some AfterArrow
      else if t = TEq then Some AfterAssign else if t = TSemi then Some StmtStart
      else if is_id_tok t then Some AfterNode else if t = RBrace then Some AtEnd else None)"
| "dot_step AfterArrow t = (if is_id_tok t then Some AfterTarget else None)"
| "dot_step AfterTarget t =
     (if t = TArrow then Some AfterArrow else if t = LBrack then Some AttrStart
      else if t = TSemi then Some StmtStart else if is_id_tok t then Some AfterNode
      else if t = RBrace then Some AtEnd else None)"
| "dot_step AfterAssign t = (if is_id_tok t then Some AfterAssignValue else None)"
| "dot_step AfterAssignValue t =
     (if t = TSemi then Some StmtStart else if is_id_tok t then Some AfterNode
      else if t = RBrace then Some AtEnd else None)"
| "dot_step AttrStart t =
     (if is_id_tok t then Some AfterAttrName else if t = RBrack then Some AfterAttrList else None)"
| "dot_step AfterAttrName t = (if t = TEq then Some AfterAttrEq else None)"
| "dot_step AfterAttrEq t = (if is_id_tok t then Some AfterAttrValue else None)"
| "dot_step AfterAttrValue t =
     (if t = TComma \<or> t = TSemi then Some AttrStart else if is_id_tok t then Some AfterAttrName
      else if t = RBrack then Some AfterAttrList else None)"
| "dot_step AfterAttrList t =
     (if t = LBrack then Some AttrStart else if t = TSemi then Some StmtStart
      else if is_id_tok t then Some AfterNode else if t = RBrace then Some AtEnd else None)"
| "dot_step AtEnd t = None"

fun dot_run :: "pstate \<Rightarrow> token list \<Rightarrow> bool" where
  "dot_run s [] = (s = AtEnd)"
| "dot_run s (t # ts) = (case dot_step s t of None \<Rightarrow> False | Some s' \<Rightarrow> dot_run s' ts)"

definition dot_well_formed :: "ustring \<Rightarrow> bool" where
  "dot_well_formed text = dot_run AtStart (dot_tokens text)"

text \<open>
  A label that can stand between double quotes: it holds no double quote, and each of
  its backslashes is followed by the letter \<^verbatim>\<open>n\<close>.
\<close>

fun label_safe :: "ustring \<Rightarrow> bool" where
  "label_safe [] = True"
| "label_safe [c] = (c \<noteq> 34 \<and> c \<noteq> 92)"
| "label_safe (c # d # cs) =
     (if c = 92 then d = 110 \<and> label_safe cs else c \<noteq> 34 \<and> label_safe (d # cs))"

section \<open>Predicates of the statements and of the proofs\<close>

text \<open>
  The lines the flashcard parser reacts to: a line is a question line when, stripped, it
  starts with \<^verbatim>\<open>Q:\<close>, and an answer line when, stripped, it starts with \<^verbatim>\<open>A:\<close>.  The
  text of its field is what follows the two characters of the prefix, stripped.  A block
  is a question line and an answer line; it is well formed when the question text is
  not empty.
\<close>

definition is_q_line :: "ustring \<Rightarrow> bool" where
  "is_q_line l \<longleftrightarrow> startswith (strip l) (str ''Q:'')"

definition is_a_line :: "ustring \<Rightarrow> bool" where
  "is_a_line l \<longleftrightarrow> startswith (strip l) (str ''A:'')"

definition field_text :: "ustring \<Rightarrow> ustring" where
  "field_text l = strip (drop 2 (strip l))"

definition card_of_block :: "ustring \<times> ustring \<Rightarrow> flashcard" where
  "card_of_block b = \<lparr>card_question = field_text (fst b), card_answer = field_text (snd b)\<rparr>"

definition block_lines :: "(ustring \<times> ustring) list \<Rightarrow> ustring list" where
  "block_lines blocks = concat (map (\<lambda>b. [fst b, snd b]) blocks)"

definition well_formed_block :: "ustring \<times> ustring \<Rightarrow> bool" where
  "well_formed_block b \<longleftrightarrow> is_q_line (fst b) \<and> is_a_line (snd b) \<and> field_text (fst b) \<noteq> []"

text \<open>
  The quiz reply block of the three lines \<^verbatim>\<open>Q: qu\<close>,
  \<^verbatim>\<open>Options: A) x B) y C) z D) w\<close> and \<^verbatim>\<open>Answer: y\<close>.
\<close>

definition quiz_block :: "ustring \<Rightarrow> ustring \<Rightarrow> ustring \<Rightarrow> ustring \<Rightarrow> ustring \<Rightarrow> ustring" where
  "quiz_block qu x y z w =
     str ''Q: '' @ qu @ [10] @
     str ''Options: A) '' @ x @ str '' B) '' @ y @ str '' C) '' @ z @ str '' D) '' @ w @ [10] @
     str ''Answer: '' @ y"

text \<open>
  \<open>adjacent a b t\<close>: somewhere in \<open>t\<close> the character \<open>a\<close> is followed at once by \<open>b\<close>.
  A text has a marker when it holds one of \<^verbatim>\<open>A)\<close>, \<^verbatim>\<open>B)\<close>, \<^verbatim>\<open>C)\<close>, \<^verbatim>\<open>D)\<close>.
\<close>

fun adjacent :: "nat \<Rightarrow> nat \<Rightarrow> ustring \<Rightarrow> bool" where
  "adjacent a b (c # d # r) = ((c = a \<and> d = b) \<or> adjacent a b (d # r))"
| "adjacent a b r = False"

definition has_marker :: "ustring \<Rightarrow> bool" where
  "has_marker t \<longleftrightarrow>
     adjacent 65 41 t \<or> adjacent 66 41 t \<or> adjacent 67 41 t \<or> adjacent 68 41 t"

text \<open>
  A plain option text is stripped, stays on one line, and holds neither the bar, which
  the parser uses as its separator, nor a marker.  A plain question text is stripped,
  not empty, and stays on one line.  A segment is what may stand between two markers.
\<close>

definition plain_option :: "ustring \<Rightarrow> bool" where
  "plain_option t \<longleftrightarrow>
     strip t = t \<and> 124 \<notin> set t \<and> \<not> has_marker t \<and> list_all (\<lambda>c. \<not> islinebreak c) t"

definition plain_question :: "ustring \<Rightarrow> bool" where
  "plain_question t \<longleftrightarrow> strip t = t \<and> t \<noteq> [] \<and> list_all (\<lambda>c. \<not> islinebreak c) t"

definition segment :: "ustring \<Rightarrow> bool" where
  "segment s \<longleftrightarrow> 124 \<notin> set s \<and> \<not> has_marker s"



section \<open>Facts about the string operations\<close>

lemmas string_eval =
  str_def startswith_def strip_def lstrip_def rstrip_def isspace_def islinebreak_def
  splitlines_def split_ws_def py_split_def slice_to_def or_empty_def

lemmas quiz_eval =
  generate_quiz_def quiz_step_def parse_options_def option_tokens_def option_of_token_def Let_def




lemma startswith_single [simp]: "startswith (c # cs) [a] \<longleftrightarrow> c = a"
  by (simp add: startswith_def)

lemma py_replace_single_absent: "a \<notin> set s \<Longrightarrow> py_replace [a] new s = s"
  by (induction s) auto

lemma rstrip_Nil [simp]: "rstrip [] = []"
  by (simp add: rstrip_def)

lemma lstrip_Nil [simp]: "lstrip [] = []"
  by (simp add: lstrip_def)

lemma strip_Nil [simp]: "strip [] = []"
  by (simp add: strip_def)

lemma rstrip_Cons: "rstrip (c # s) = (if rstrip s = [] \<and> isspace c then [] else c # rstrip s)"
  by (simp add: rstrip_def dropWhile_append)

lemma rstrip_idem [simp]: "rstrip (rstrip s) = rstrip s"
  by (induction s) (auto simp: rstrip_Cons)

lemma lstrip_idem [simp]: "lstrip (lstrip s) = lstrip s"
  by (simp add: lstrip_def)

lemma rstrip_lstrip: "rstrip (lstrip s) = lstrip (rstrip s)"
proof (induction s)
  case Nil
  show ?case by simp
next
  case (Cons c s)
  show ?case
  proof (cases "isspace c")
    case True
    have "lstrip (rstrip (c # s)) = lstrip (rstrip s)"
      using True by (simp add: rstrip_Cons lstrip_def)
    moreover have "rstrip (lstrip (c # s)) = rstrip (lstrip s)"
      using True by (simp add: lstrip_def)
    ultimately show ?thesis using Cons.IH by simp
  next
    case False
    then show ?thesis by (simp add: rstrip_Cons lstrip_def)
  qed
qed

lemma strip_idem [simp]: "strip (strip s) = strip s"
  by (simp add: strip_def rstrip_lstrip)

lemma set_lstrip: "set (lstrip s) \<subseteq> set s"
  by (auto simp: lstrip_def dest: set_dropWhileD)

lemma set_rstrip: "set (rstrip s) \<subseteq> set s"
proof -
  have "set (dropWhile isspace (rev s)) \<subseteq> set (rev s)"
    by (auto dest: set_dropWhileD)
  then show ?thesis by (simp add: rstrip_def)
qed

lemma set_strip: "set (strip s) \<subseteq> set s"
  using set_lstrip [of "rstrip s"] set_rstrip [of s] by (auto simp: strip_def)

lemma rstrip_all_space: "\<forall>c \<in> set s. isspace c \<Longrightarrow> rstrip s = []"
  by (simp add: rstrip_def)

lemma strip_all_space: "\<forall>c \<in> set s. isspace c \<Longrightarrow> strip s = []"
  by (simp add: strip_def rstrip_all_space)

lemma strip_space_Cons: "isspace c \<Longrightarrow> strip (c # s) = strip s"
  by (simp add: strip_def rstrip_Cons lstrip_def)

lemma length_lstrip: "length (lstrip s) \<le> length s"
  by (simp add: lstrip_def length_dropWhile_le)

lemma length_rstrip: "length (rstrip s) \<le> length s"
  using length_dropWhile_le [of isspace "rev s"] by (simp add: rstrip_def)

lemma length_strip: "length (strip s) \<le> length s"
  using length_lstrip [of "rstrip s"] length_rstrip [of s] by (simp add: strip_def)

lemma rstrip_take: "rstrip s = take (length (rstrip s)) s"
  by (induction s) (auto simp: rstrip_Cons)

lemma strip_fixed_rstrip:
  assumes "strip t = t"
  shows "rstrip t = t"
proof -
  have "length t = length (lstrip (rstrip t))"
    using assms by (simp add: strip_def)
  then have "length (rstrip t) = length t"
    using length_lstrip [of "rstrip t"] length_rstrip [of t] by simp
  then show ?thesis using rstrip_take [of t] by simp
qed

lemma strip_rstrip [simp]: "strip (rstrip s) = strip s"
  by (simp add: strip_def)

lemma rstrip_snoc_space: "isspace c \<Longrightarrow> rstrip (s @ [c]) = rstrip s"
  by (simp add: rstrip_def)

lemma strip_snoc_space: "isspace c \<Longrightarrow> strip (s @ [c]) = strip s"
  by (simp add: strip_def rstrip_snoc_space)

lemma rstrip_nonspace_Cons: "\<not> isspace c \<Longrightarrow> rstrip (c # s) = c # rstrip s"
  by (simp add: rstrip_Cons)

lemma rstrip_nonspace_prefix:
  "\<forall>c \<in> set p. \<not> isspace c \<Longrightarrow> rstrip (p @ s) = p @ rstrip s"
  by (induction p) (auto simp: rstrip_Cons)

lemma strip_nonspace_prefix:
  assumes "\<forall>c \<in> set p. \<not> isspace c" and "p \<noteq> []"
  shows "strip (p @ s) = p @ rstrip s"
proof -
  obtain c p' where p: "p = c # p'" using assms(2) by (cases p) auto
  then have c: "\<not> isspace c" using assms(1) by simp
  have "rstrip (p @ s) = p @ rstrip s"
    using assms(1) by (rule rstrip_nonspace_prefix)
  then have "strip (p @ s) = lstrip (c # p' @ rstrip s)"
    by (simp add: strip_def p)
  then show ?thesis using c by (simp add: lstrip_def p)
qed

lemma rstrip_append_nonspace: "\<not> isspace c \<Longrightarrow> rstrip (s @ c # r) = s @ c # rstrip r"
  by (induction s) (auto simp: rstrip_Cons)

text \<open>A line that starts with a prefix without whitespace.\<close>

lemma prefixed_line:
  assumes "\<forall>c \<in> set p. \<not> isspace c" and "p \<noteq> []"
  shows "strip (p @ s) = p @ rstrip s"
    and "startswith (strip (p @ s)) p"
    and "strip (drop (length p) (strip (p @ s))) = strip s"
  using strip_nonspace_prefix [OF assms] by (simp_all add: startswith_def)

lemma islinebreak_10_13: "islinebreak 10" "islinebreak 13"
  by (simp_all add: islinebreak_def)

lemma splitlines_acc_step:
  "\<not> islinebreak c \<Longrightarrow> s \<noteq> [] \<Longrightarrow> splitlines_acc acc (c # s) = splitlines_acc (acc @ [c]) s"
  using islinebreak_10_13 by (cases s) auto

lemma splitlines_acc_line:
  "\<forall>c \<in> set l. \<not> islinebreak c \<Longrightarrow>
   splitlines_acc acc (l @ 10 # rest) = (acc @ l) # splitlines_acc [] rest"
proof (induction l arbitrary: acc)
  case Nil
  show ?case using islinebreak_10_13 by (cases rest) simp_all
next
  case (Cons c l)
  have "splitlines_acc acc (c # (l @ 10 # rest)) = splitlines_acc (acc @ [c]) (l @ 10 # rest)"
    using Cons.prems by (intro splitlines_acc_step) simp_all
  then show ?case using Cons by simp
qed

lemma splitlines_acc_last:
  "\<forall>c \<in> set l. \<not> islinebreak c \<Longrightarrow> acc @ l \<noteq> [] \<Longrightarrow> splitlines_acc acc l = [acc @ l]"
proof (induction l arbitrary: acc)
  case Nil
  then show ?case by simp
next
  case (Cons c l)
  show ?case
  proof (cases "l = []")
    case True
    then show ?thesis using Cons.prems by simp
  next
    case False
    then have "splitlines_acc acc (c # l) = splitlines_acc (acc @ [c]) l"
      using Cons.prems by (intro splitlines_acc_step) simp_all
    then show ?thesis using Cons.prems Cons.IH [of "acc @ [c]"] by simp
  qed
qed

lemma adjacent_Cons:
  "adjacent a b (c # s) \<longleftrightarrow> (c = a \<and> s \<noteq> [] \<and> hd s = b) \<or> adjacent a b s"
  by (cases s) auto

lemma adjacent_append_Cons:
  "adjacent a b (s @ c # t) \<longleftrightarrow>
     adjacent a b s \<or> (s \<noteq> [] \<and> last s = a \<and> c = b) \<or> adjacent a b (c # t)"
  by (induction a b s rule: adjacent.induct) (auto simp: adjacent_Cons)

lemma py_replace_pair_hit:
  "py_replace [a, b] new (a # b # r) = new @ py_replace [a, b] new r"
  by (simp add: startswith_def)

lemma py_replace_pair_skip:
  "\<not> adjacent a b s \<Longrightarrow> s = [] \<or> last s \<noteq> a \<Longrightarrow>
   py_replace [a, b] new (s @ r) = s @ py_replace [a, b] new r"
proof (induction s)
  case Nil
  show ?case by simp
next
  case (Cons c s)
  have n: "\<not> startswith (c # s @ r) [a, b]"
  proof (cases s)
    case Nil
    then show ?thesis using Cons.prems by (auto simp: startswith_def)
  next
    case (Cons d ds)
    then show ?thesis using Cons.prems by (auto simp: startswith_def)
  qed
  have "\<not> adjacent a b s" and "s = [] \<or> last s \<noteq> a"
    using Cons.prems by (auto simp: adjacent_Cons split: if_splits)
  then show ?case using Cons.IH n by simp
qed

lemma py_replace_pair_absent:
  "\<not> adjacent a b s \<Longrightarrow> py_replace [a, b] new s = s"
proof (induction s)
  case Nil
  show ?case by simp
next
  case (Cons c s)
  have n: "\<not> startswith (c # s) [a, b]"
    using Cons.prems by (cases s) (auto simp: startswith_def)
  have "\<not> adjacent a b s"
    using Cons.prems by (auto simp: adjacent_Cons)
  then show ?case using Cons.IH n by simp
qed

lemma split_acc_char:
  "c \<notin> set s \<Longrightarrow> split_acc [c] acc (s @ c # r) = (acc @ s) # split_acc [c] [] r"
  by (induction s arbitrary: acc) (auto simp: startswith_def)

lemma split_acc_char_last:
  "c \<notin> set s \<Longrightarrow> split_acc [c] acc s = [acc @ s]"
  by (induction s arbitrary: acc) (auto simp: startswith_def)

section \<open>Facts about the flashcard parser\<close>

lemmas flashcard_eval =
  generate_flashcards_def flashcards_step_def is_q_line_def is_a_line_def field_text_def
  card_of_block_def block_lines_def well_formed_block_def Let_def

lemma a_line_not_q: "is_a_line l \<Longrightarrow> \<not> is_q_line l"
  by (auto simp: is_a_line_def is_q_line_def startswith_def str_def)

lemma flashcards_step_other:
  "\<not> is_q_line l \<Longrightarrow> \<not> is_a_line l \<Longrightarrow> flashcards_step l st = st"
  by (cases st) (auto simp: flashcards_step_def is_q_line_def is_a_line_def Let_def split: option.splits)

lemma flashcards_step_q:
  "is_q_line l \<Longrightarrow> flashcards_step l (cards, qu) = (cards, Some (field_text l))"
  by (simp add: flashcards_step_def is_q_line_def field_text_def Let_def)

lemma flashcards_step_a:
  "is_a_line l \<Longrightarrow> q \<noteq> [] \<Longrightarrow>
   flashcards_step l (cards, Some q) =
     (cards @ [\<lparr>card_question = q, card_answer = field_text l\<rparr>], None)"
  using a_line_not_q [of l]
  by (simp add: flashcards_step_def is_q_line_def is_a_line_def field_text_def Let_def)

lemma flashcards_loop_filter:
  "int (length (fst st)) < n \<Longrightarrow>
   flashcards_loop n st ls = flashcards_loop n st (filter (\<lambda>l. is_q_line l \<or> is_a_line l) ls)"
proof (induction ls arbitrary: st)
  case Nil
  show ?case by simp
next
  case (Cons l ls)
  show ?case
  proof (cases "is_q_line l \<or> is_a_line l")
    case True
    show ?thesis
    proof (cases "n \<le> int (length (fst (flashcards_step l st)))")
      case True
      then show ?thesis using \<open>is_q_line l \<or> is_a_line l\<close> by (simp add: Let_def)
    next
      case False
      then have "int (length (fst (flashcards_step l st))) < n" by simp
      then show ?thesis
        using Cons.IH [of "flashcards_step l st"] True False by (simp add: Let_def)
    qed
  next
    case False
    then have "flashcards_step l st = st"
      by (simp add: flashcards_step_other)
    then show ?thesis using False Cons by (simp add: Let_def)
  qed
qed

lemma flashcards_loop_block:
  assumes "well_formed_block b" and "int (length cards) < n"
  shows "flashcards_loop n (cards, qu) (fst b # snd b # rest) =
     (if n \<le> int (length cards) + 1 then cards @ [card_of_block b]
      else flashcards_loop n (cards @ [card_of_block b], None) rest)"
  using assms
  by (simp add: well_formed_block_def flashcards_step_q flashcards_step_a Let_def card_of_block_def)


lemma flashcards_loop_blocks_eq:
  assumes "\<forall>b \<in> set blocks. well_formed_block b"
    and "blocks \<noteq> []"
    and "int (length cards + length blocks) = n"
  shows "flashcards_loop n (cards, qu) (block_lines blocks @ rest) = cards @ map card_of_block blocks"
  using assms
proof (induction blocks arbitrary: cards qu)
  case Nil
  then show ?case by simp
next
  case (Cons b bs)
  show ?case
  proof (cases "bs = []")
    case True
    then show ?thesis
      using Cons.prems flashcards_loop_block [of b cards n qu rest]
      by (simp add: block_lines_def del: flashcards_loop.simps)
  next
    case False
    then have "0 < length bs" by simp
    then have "\<not> n \<le> int (length cards) + 1" and "int (length cards) < n"
      using Cons.prems(3) by auto
    then have "flashcards_loop n (cards, qu) (block_lines (b # bs) @ rest) =
          flashcards_loop n (cards @ [card_of_block b], None) (block_lines bs @ rest)"
      using Cons.prems(1) flashcards_loop_block [of b cards n qu "block_lines bs @ rest"]
      by (simp add: block_lines_def del: flashcards_loop.simps)
    also have "\<dots> = (cards @ [card_of_block b]) @ map card_of_block bs"
      using Cons.prems False by (intro Cons.IH) auto
    finally show ?thesis by simp
  qed
qed


section \<open>Facts about the quiz parser\<close>



lemmas option_eval =
  plain_option_def plain_question_def has_marker_def quiz_block_def list_all_iff

lemma segment_adjacent:
  assumes "segment s"
  shows "\<not> adjacent 65 41 s" "\<not> adjacent 66 41 s" "\<not> adjacent 67 41 s" "\<not> adjacent 68 41 s"
  using assms by (simp_all add: segment_def has_marker_def)

lemma option_tokens_segments:
  assumes s1: "segment s1" "s1 \<noteq> []" "last s1 = 32"
    and s2: "segment s2" "s2 \<noteq> []" "last s2 = 32"
    and s3: "segment s3" "s3 \<noteq> []" "last s3 = 32"
    and s4: "segment s4"
  shows "option_tokens ([65, 41] @ s1 @ [66, 41] @ s2 @ [67, 41] @ s3 @ [68, 41] @ s4) =
     [[65, 41] @ s1, [66, 41] @ s2, [67, 41] @ s3, [68, 41] @ s4]"
proof -
  note adj = segment_adjacent [OF s1(1)] segment_adjacent [OF s2(1)]
    segment_adjacent [OF s3(1)] segment_adjacent [OF s4]
  have bar: "124 \<notin> set s1" "124 \<notin> set s2" "124 \<notin> set s3" "124 \<notin> set s4"
    using s1 s2 s3 s4 by (simp_all add: segment_def)
  let ?RA = "s1 @ 66 # 41 # s2 @ 67 # 41 # s3 @ 68 # 41 # s4"
  let ?RB = "s2 @ 67 # 41 # s3 @ 68 # 41 # s4"
  let ?RC = "s3 @ 68 # 41 # s4"
  have a: "py_replace [65, 41] [124, 65, 41] (65 # 41 # ?RA) = 124 # 65 # 41 # ?RA"
  proof -
    have "\<not> adjacent 65 41 ?RA"
      using adj s1 s2 s3 by (simp add: adjacent_append_Cons adjacent_Cons)
    then have "py_replace [65, 41] [124, 65, 41] ?RA = ?RA"
      by (rule py_replace_pair_absent)
    then show ?thesis by (simp only: py_replace_pair_hit) simp
  qed
  have b: "py_replace [66, 41] [124, 66, 41] ((124 # 65 # 41 # s1) @ 66 # 41 # ?RB) =
      (124 # 65 # 41 # s1) @ 124 # 66 # 41 # ?RB"
  proof -
    have "\<not> adjacent 66 41 ?RB"
      using adj s2 s3 by (simp add: adjacent_append_Cons adjacent_Cons)
    then have r: "py_replace [66, 41] [124, 66, 41] ?RB = ?RB"
      by (rule py_replace_pair_absent)
    have "\<not> adjacent 66 41 (124 # 65 # 41 # s1)"
      using adj by (simp add: adjacent_Cons)
    moreover have "124 # 65 # 41 # s1 = [] \<or> last (124 # 65 # 41 # s1) \<noteq> 66"
      using s1 by simp
    ultimately have "py_replace [66, 41] [124, 66, 41] ((124 # 65 # 41 # s1) @ 66 # 41 # ?RB) =
      (124 # 65 # 41 # s1) @ py_replace [66, 41] [124, 66, 41] (66 # 41 # ?RB)"
      by (rule py_replace_pair_skip)
    then show ?thesis by (simp only: py_replace_pair_hit r) simp
  qed
  let ?PC = "124 # 65 # 41 # s1 @ 124 # 66 # 41 # s2"
  have c: "py_replace [67, 41] [124, 67, 41] (?PC @ 67 # 41 # ?RC) = ?PC @ 124 # 67 # 41 # ?RC"
  proof -
    have "\<not> adjacent 67 41 ?RC"
      using adj s3 by (simp add: adjacent_append_Cons adjacent_Cons)
    then have r: "py_replace [67, 41] [124, 67, 41] ?RC = ?RC"
      by (rule py_replace_pair_absent)
    have "\<not> adjacent 67 41 ?PC"
      using adj s1 by (simp add: adjacent_append_Cons adjacent_Cons)
    moreover have "?PC = [] \<or> last ?PC \<noteq> 67"
      using s2 by simp
    ultimately have "py_replace [67, 41] [124, 67, 41] (?PC @ 67 # 41 # ?RC) =
      ?PC @ py_replace [67, 41] [124, 67, 41] (67 # 41 # ?RC)"
      by (rule py_replace_pair_skip)
    then show ?thesis by (simp only: py_replace_pair_hit r) simp
  qed
  let ?PD = "124 # 65 # 41 # s1 @ 124 # 66 # 41 # s2 @ 124 # 67 # 41 # s3"
  have d: "py_replace [68, 41] [124, 68, 41] (?PD @ 68 # 41 # s4) = ?PD @ 124 # 68 # 41 # s4"
  proof -
    have r: "py_replace [68, 41] [124, 68, 41] s4 = s4"
      using adj by (intro py_replace_pair_absent)
    have "\<not> adjacent 68 41 ?PD"
      using adj s1 s2 by (simp add: adjacent_append_Cons adjacent_Cons)
    moreover have "?PD = [] \<or> last ?PD \<noteq> 68"
      using s3 by simp
    ultimately have "py_replace [68, 41] [124, 68, 41] (?PD @ 68 # 41 # s4) =
      ?PD @ py_replace [68, 41] [124, 68, 41] (68 # 41 # s4)"
      by (rule py_replace_pair_skip)
    then show ?thesis by (simp only: py_replace_pair_hit r) simp
  qed
  have chain: "py_replace [68, 41] [124, 68, 41]
      (py_replace [67, 41] [124, 67, 41]
        (py_replace [66, 41] [124, 66, 41]
          (py_replace [65, 41] [124, 65, 41]
            ([65, 41] @ s1 @ [66, 41] @ s2 @ [67, 41] @ s3 @ [68, 41] @ s4)))) =
      ?PD @ 124 # 68 # 41 # s4"
  proof -
    have "py_replace [65, 41] [124, 65, 41]
            ([65, 41] @ s1 @ [66, 41] @ s2 @ [67, 41] @ s3 @ [68, 41] @ s4) =
          (124 # 65 # 41 # s1) @ 66 # 41 # ?RB"
      using a by simp
    moreover have "(124 # 65 # 41 # s1) @ 124 # 66 # 41 # ?RB = ?PC @ 67 # 41 # ?RC"
      by simp
    moreover have "?PC @ 124 # 67 # 41 # ?RC = ?PD @ 68 # 41 # s4"
      by simp
    ultimately show ?thesis using b c d by (simp only:)
  qed
  have split: "py_split (?PD @ 124 # 68 # 41 # s4) [124] =
      [[], 65 # 41 # s1, 66 # 41 # s2, 67 # 41 # s3, 68 # 41 # s4]"
  proof -
    have e4: "split_acc [124] [] (68 # 41 # s4) = [68 # 41 # s4]"
      using bar split_acc_char_last [of 124 "68 # 41 # s4" "[]"] by simp
    have e3: "split_acc [124] [] ((67 # 41 # s3) @ 124 # 68 # 41 # s4) =
        [67 # 41 # s3, 68 # 41 # s4]"
      using bar split_acc_char [of 124 "67 # 41 # s3" "[]" "68 # 41 # s4"] e4 by simp
    have e2: "split_acc [124] [] ((66 # 41 # s2) @ 124 # (67 # 41 # s3) @ 124 # 68 # 41 # s4) =
        [66 # 41 # s2, 67 # 41 # s3, 68 # 41 # s4]"
      using bar split_acc_char [of 124 "66 # 41 # s2" "[]" "(67 # 41 # s3) @ 124 # 68 # 41 # s4"] e3
      by simp
    have e1: "split_acc [124] []
        ((65 # 41 # s1) @ 124 # (66 # 41 # s2) @ 124 # (67 # 41 # s3) @ 124 # 68 # 41 # s4) =
        [65 # 41 # s1, 66 # 41 # s2, 67 # 41 # s3, 68 # 41 # s4]"
      using bar split_acc_char [of 124 "65 # 41 # s1" "[]"
          "(66 # 41 # s2) @ 124 # (67 # 41 # s3) @ 124 # 68 # 41 # s4"] e2
      by simp
    have e0: "split_acc [124] []
        ([] @ 124 # (65 # 41 # s1) @ 124 # (66 # 41 # s2) @ 124 # (67 # 41 # s3) @ 124 # 68 # 41 # s4) =
        [[], 65 # 41 # s1, 66 # 41 # s2, 67 # 41 # s3, 68 # 41 # s4]"
      using split_acc_char [of 124 "[]" "[]"
          "(65 # 41 # s1) @ 124 # (66 # 41 # s2) @ 124 # (67 # 41 # s3) @ 124 # 68 # 41 # s4"] e1
      by simp
    then show ?thesis by (simp add: py_split_def)
  qed
  show ?thesis
    unfolding option_tokens_def
    by (simp only: str_def list.map of_char_Char) (simp add: chain [simplified] split [simplified])
qed

lemma quiz_step_q:
  assumes "strip qu = qu"
  shows "quiz_step (str ''Q: '' @ qu) (qs, q0, opts) = (qs, Some qu, opts)"
proof -
  have p: "\<forall>c \<in> set [81, 58]. \<not> isspace c" "[81, 58] \<noteq> ([] :: ustring)"
    by (simp_all add: isspace_def)
  have l: "str ''Q: '' @ qu = [81, 58] @ (32 # qu)" "str ''Q:'' = [81, 58]"
    by (simp_all add: str_def)
  have "strip (32 # qu) = qu"
    using assms by (simp add: strip_space_Cons isspace_def)
  then show ?thesis
    using prefixed_line(1) [OF p, of "32 # qu"]
    by (simp add: quiz_step_def Let_def l startswith_def)
qed

lemma quiz_step_options:
  "quiz_step (str ''Options:'' @ s) (qs, q, opts) = (qs, q, parse_options (strip s))"
proof -
  let ?p = "[79, 112, 116, 105, 111, 110, 115, 58] :: ustring"
  have p: "\<forall>c \<in> set ?p. \<not> isspace c" "?p \<noteq> []"
    by (simp_all add: isspace_def)
  have l: "str ''Options:'' = ?p" "str ''Q:'' = [81, 58]"
    by (simp_all add: str_def)
  show ?thesis
    using prefixed_line(1) [OF p, of s]
    by (simp add: quiz_step_def Let_def l startswith_def)
qed

lemma quiz_step_answer:
  assumes "strip y = y" and "q \<noteq> []"
  shows "quiz_step (str ''Answer: '' @ y) (qs, Some q, opts) =
     (qs @ [\<lparr>quiz_question = q, quiz_options = take 4 opts, quiz_answer = y\<rparr>], None, [])"
proof -
  let ?p = "[65, 110, 115, 119, 101, 114, 58] :: ustring"
  have p: "\<forall>c \<in> set ?p. \<not> isspace c" "?p \<noteq> []"
    by (simp_all add: isspace_def)
  have l: "str ''Answer: '' @ y = ?p @ (32 # y)" "str ''Answer:'' = ?p" "str ''Q:'' = [81, 58]"
      "str ''Options:'' = [79, 112, 116, 105, 111, 110, 115, 58]"
    by (simp_all add: str_def)
  have "strip (32 # y) = y"
    using assms by (simp add: strip_space_Cons isspace_def)
  then show ?thesis
    using prefixed_line(1) [OF p, of "32 # y"] assms(2)
    by (simp add: quiz_step_def Let_def l startswith_def)
qed

lemma option_of_token_marker:
  assumes "\<not> isspace a"
  shows "option_of_token ([a, 41] @ s) = strip s"
proof -
  have p: "\<forall>c \<in> set [a, 41]. \<not> isspace c" "[a, 41] \<noteq> []"
    using assms by (simp_all add: isspace_def)
  have "strip ([a, 41] @ s) = [a, 41] @ rstrip s"
    using p by (rule strip_nonspace_prefix)
  then show ?thesis by (simp add: option_of_token_def Let_def)
qed

lemma segment_padded:
  assumes "124 \<notin> set x" and "\<not> has_marker x"
  shows "segment (32 # x @ [32])"
  using assms
  by (simp add: segment_def has_marker_def adjacent_Cons adjacent_append_Cons)

lemma parse_options_plain:
  assumes "plain_option x" "plain_option y" "plain_option z" "plain_option w"
  shows "parse_options
     (strip (str '' A) '' @ x @ str '' B) '' @ y @ str '' C) '' @ z @ str '' D) '' @ w)) =
     [x, y, z, w]"
proof -
  define s1 where "s1 = 32 # x @ [32]"
  define s2 where "s2 = 32 # y @ [32]"
  define s3 where "s3 = 32 # z @ [32]"
  define s4 where "s4 = rstrip (32 # w)"
  have t: "strip x = x" "strip y = y" "strip z = z" "strip w = w"
    using assms by (simp_all add: plain_option_def)
  have g: "segment s1" "segment s2" "segment s3"
    using assms by (simp_all add: plain_option_def s1_def s2_def s3_def segment_padded)
  have e: "s1 \<noteq> []" "last s1 = 32" "s2 \<noteq> []" "last s2 = 32" "s3 \<noteq> []" "last s3 = 32"
    by (simp_all add: s1_def s2_def s3_def)
  have w4: "s4 = (if w = [] then [] else 32 # w)"
    using strip_fixed_rstrip [OF t(4)] by (simp add: s4_def rstrip_Cons isspace_def)
  have g4: "segment s4"
    using assms(4) segment_padded [of w]
    by (auto simp: w4 plain_option_def segment_def has_marker_def adjacent_Cons)
  have "str '' A) '' @ x @ str '' B) '' @ y @ str '' C) '' @ z @ str '' D) '' @ w =
      32 # ([65, 41] @ (s1 @ [66, 41] @ s2 @ [67, 41] @ s3 @ [68]) @ 41 # (32 # w))"
    by (simp add: str_def s1_def s2_def s3_def)
  then have "strip (str '' A) '' @ x @ str '' B) '' @ y @ str '' C) '' @ z @ str '' D) '' @ w) =
      strip ([65, 41] @ (s1 @ [66, 41] @ s2 @ [67, 41] @ s3 @ [68]) @ 41 # (32 # w))"
    by (simp only: strip_space_Cons [of 32, simplified isspace_def, simplified])
  also have "\<dots> = [65, 41] @ rstrip ((s1 @ [66, 41] @ s2 @ [67, 41] @ s3 @ [68]) @ 41 # (32 # w))"
    by (rule strip_nonspace_prefix) (simp_all add: isspace_def)
  also have "\<dots> = [65, 41] @ (s1 @ [66, 41] @ s2 @ [67, 41] @ s3 @ [68]) @ 41 # s4"
    unfolding s4_def by (subst rstrip_append_nonspace) (simp_all add: isspace_def)
  also have "\<dots> = [65, 41] @ s1 @ [66, 41] @ s2 @ [67, 41] @ s3 @ [68, 41] @ s4"
    by simp
  finally have form:
    "strip (str '' A) '' @ x @ str '' B) '' @ y @ str '' C) '' @ z @ str '' D) '' @ w) =
      [65, 41] @ s1 @ [66, 41] @ s2 @ [67, 41] @ s3 @ [68, 41] @ s4" .
  have tok: "option_tokens ([65, 41] @ s1 @ [66, 41] @ s2 @ [67, 41] @ s3 @ [68, 41] @ s4) =
     [[65, 41] @ s1, [66, 41] @ s2, [67, 41] @ s3, [68, 41] @ s4]"
    using g(1) e(1,2) g(2) e(3,4) g(3) e(5,6) g4 by (rule option_tokens_segments)
  have p: "strip s1 = x" "strip s2 = y" "strip s3 = z" "strip s4 = w"
    using t by (simp_all add: s1_def s2_def s3_def s4_def strip_space_Cons strip_snoc_space
        isspace_def)
  have nn: "\<not> isspace 65" "\<not> isspace 66" "\<not> isspace 67" "\<not> isspace 68"
    by (simp_all add: isspace_def)
  have o: "option_of_token ([65, 41] @ s1) = x" "option_of_token ([66, 41] @ s2) = y"
      "option_of_token ([67, 41] @ s3) = z" "option_of_token ([68, 41] @ s4) = w"
    using p nn [THEN option_of_token_marker] by simp_all
  show ?thesis
    unfolding parse_options_def form tok using o by (simp del: append.simps)
qed

lemma quiz_block_lines:
  assumes "plain_question qu" "plain_option x" "plain_option y" "plain_option z" "plain_option w"
  shows "splitlines (quiz_block qu x y z w) =
     [str ''Q: '' @ qu,
      str ''Options:'' @ (str '' A) '' @ x @ str '' B) '' @ y @ str '' C) '' @ z @ str '' D) '' @ w),
      str ''Answer: '' @ y]"
proof -
  let ?l1 = "str ''Q: '' @ qu"
  let ?l2 = "str ''Options:'' @ (str '' A) '' @ x @ str '' B) '' @ y @ str '' C) '' @ z @ str '' D) '' @ w)"
  let ?l3 = "str ''Answer: '' @ y"
  have lit: "\<forall>c \<in> set (str ''Q: ''). \<not> islinebreak c"
      "\<forall>c \<in> set (str ''Options:''). \<not> islinebreak c"
      "\<forall>c \<in> set (str '' A) ''). \<not> islinebreak c"
      "\<forall>c \<in> set (str '' B) ''). \<not> islinebreak c"
      "\<forall>c \<in> set (str '' C) ''). \<not> islinebreak c"
      "\<forall>c \<in> set (str '' D) ''). \<not> islinebreak c"
      "\<forall>c \<in> set (str ''Answer: ''). \<not> islinebreak c"
    by (simp_all add: str_def islinebreak_def)
  have v: "\<forall>c \<in> set qu. \<not> islinebreak c" "\<forall>c \<in> set x. \<not> islinebreak c"
      "\<forall>c \<in> set y. \<not> islinebreak c" "\<forall>c \<in> set z. \<not> islinebreak c"
      "\<forall>c \<in> set w. \<not> islinebreak c"
    using assms by (simp_all add: plain_question_def plain_option_def list_all_iff)
  have n1: "\<forall>c \<in> set ?l1. \<not> islinebreak c"
    using lit(1) v(1) by auto
  have n2: "\<forall>c \<in> set ?l2. \<not> islinebreak c"
    using lit(2-6) v(2-5) by auto
  have n3: "\<forall>c \<in> set ?l3. \<not> islinebreak c"
    using lit(7) v(3) by auto
  have "?l3 \<noteq> []" by (simp add: str_def)
  then have e3: "splitlines_acc [] ?l3 = [?l3]"
    using splitlines_acc_last [OF n3, of "[]"] by simp
  have b: "quiz_block qu x y z w = ?l1 @ 10 # (?l2 @ 10 # ?l3)"
    by (simp add: quiz_block_def str_def)
  have "splitlines_acc [] (?l1 @ 10 # (?l2 @ 10 # ?l3)) = ?l1 # splitlines_acc [] (?l2 @ 10 # ?l3)"
    using splitlines_acc_line [OF n1, of "[]"] by simp
  also have "\<dots> = ?l1 # ?l2 # splitlines_acc [] ?l3"
    using splitlines_acc_line [OF n2, of "[]"] by simp
  finally show ?thesis
    unfolding splitlines_def b e3 .
qed

section \<open>Facts about the diagram builder\<close>

lemma findall_p_all_space: "\<forall>c \<in> set s. isspace c \<Longrightarrow> findall_p s = []"
proof (induction s)
  case Nil
  show ?case by simp
next
  case (Cons c cs)
  have "isspace c" using Cons.prems by simp
  then have "\<not> startswith (c # cs) (str ''<p'')"
    by (auto simp: startswith_def str_def isspace_def)
  then show ?case using Cons by simp
qed

lemma split_acc_pieces:
  "p \<in> set (split_acc sep acc s) \<Longrightarrow> set p \<subseteq> set acc \<union> set s"
proof (induction sep acc s rule: split_acc.induct)
  case (1 sep acc)
  then show ?case by simp
next
  case (2 sep acc c cs)
  show ?case
  proof (cases "sep \<noteq> [] \<and> startswith (c # cs) sep")
    case True
    then have "p = acc \<or> p \<in> set (split_acc sep [] (drop (length sep) (c # cs)))"
      using "2.prems" by simp
    then show ?thesis
    proof
      assume "p = acc" then show ?thesis by auto
    next
      assume "p \<in> set (split_acc sep [] (drop (length sep) (c # cs)))"
      then have "set p \<subseteq> set (drop (length sep) (c # cs))"
        using "2.IH"(1) True by auto
      then show ?thesis using set_drop_subset [of "length sep" "c # cs"] by auto
    qed
  next
    case False
    then have "p \<in> set (split_acc sep (acc @ [c]) cs)"
      using "2.prems" by auto
    then have "set p \<subseteq> set (acc @ [c]) \<union> set cs"
      using "2.IH"(2) False by blast
    then show ?thesis by auto
  qed
qed

lemma split_paragraphs_all_space:
  assumes "\<forall>c \<in> set s. isspace c"
  shows "split_paragraphs s = []"
proof -
  have "\<forall>p \<in> set (py_split s [10, 10]). strip p = []"
  proof
    fix p assume "p \<in> set (py_split s [10, 10])"
    then have "set p \<subseteq> set s"
      using split_acc_pieces [of p "[10, 10]" "[]" s] by (simp add: py_split_def)
    then show "strip p = []" using assms by (auto intro: strip_all_space)
  qed
  then have "filter (\<lambda>p. strip p \<noteq> []) (py_split s [10, 10]) = []"
    by (simp add: filter_empty_conv)
  then show ?thesis
    using findall_p_all_space [OF assms] by (simp add: split_paragraphs_def)
qed

lemma enumerate_heads:
  "enumerate 0 heads = [(0, heads ! 0), (1, heads ! 1), (2, heads ! 2)]"
  by (simp add: heads_def enumerate_eq_zip upt_rec)

lemma wrap_loop_lines:
  assumes "\<forall>l \<in> set (fst st). length l \<le> m \<or> l \<in> W"
    and "length (snd st) \<le> m \<or> snd st \<in> W"
    and "set ws \<subseteq> W"
  shows "(\<forall>l \<in> set (fst (wrap_loop (int m) st ws)). length l \<le> m \<or> l \<in> W) \<and>
         (length (snd (wrap_loop (int m) st ws)) \<le> m \<or> snd (wrap_loop (int m) st ws) \<in> W)"
  using assms
proof (induction ws arbitrary: st)
  case Nil
  then show ?case by simp
next
  case (Cons w ws)
  let ?line = "snd st"
  show ?case
  proof (cases "int (length ?line) + int (length w) + (if ?line \<noteq> [] then 1 else 0) \<le> int m")
    case True
    have "length (strip (?line @ [32] @ w)) \<le> m"
    proof (cases "?line = []")
      case True
      have "strip ([32] @ w) = strip w"
        by (simp add: strip_space_Cons isspace_def)
      then have "length (strip (?line @ [32] @ w)) \<le> length w"
        using True length_strip [of w] by simp
      then show ?thesis using \<open>int (length ?line) + int (length w) + (if ?line \<noteq> [] then 1 else 0) \<le> int m\<close> True
        by simp
    next
      case False
      have "length (strip (?line @ [32] @ w)) \<le> length (?line @ [32] @ w)"
        by (rule length_strip)
      then show ?thesis using \<open>int (length ?line) + int (length w) + (if ?line \<noteq> [] then 1 else 0) \<le> int m\<close> False
        by simp
    qed
    then have "(\<forall>l \<in> set (fst (wrap_loop (int m) (fst st, strip (?line @ [32] @ w)) ws)). length l \<le> m \<or> l \<in> W) \<and>
         (length (snd (wrap_loop (int m) (fst st, strip (?line @ [32] @ w)) ws)) \<le> m \<or>
          snd (wrap_loop (int m) (fst st, strip (?line @ [32] @ w)) ws) \<in> W)"
      using Cons.prems by (intro Cons.IH) auto
    then show ?thesis using True by (simp add: Let_def)
  next
    case False
    have "(\<forall>l \<in> set (fst (wrap_loop (int m) (fst st @ [?line], w) ws)). length l \<le> m \<or> l \<in> W) \<and>
         (length (snd (wrap_loop (int m) (fst st @ [?line], w) ws)) \<le> m \<or>
          snd (wrap_loop (int m) (fst st @ [?line], w) ws) \<in> W)"
      using Cons.prems by (intro Cons.IH) auto
    then show ?thesis using False by (simp add: Let_def)
  qed
qed

lemma sentence_split_no_backslash:
  "92 \<notin> set s \<Longrightarrow> sentence_split after_punct acc s = [acc @ s]"
  by (induction s arbitrary: after_punct acc) auto

lemma sentences_no_backslash:
  assumes "92 \<notin> set s"
  shows "sentences s = (if strip s = [] then [] else [strip s])"
proof -
  have "92 \<notin> set (strip s)"
    using assms set_strip [of s] by auto
  then have "sentence_split False [] (strip s) = [strip s]"
    using sentence_split_no_backslash [of "strip s" False "[]"] by simp
  then show ?thesis by (simp add: sentences_def)
qed

subsection \<open>Labels and well-formed graph text\<close>

lemma qstring_quote: "qstring (34 # r) = Some ([], r)"
  by (cases r) simp_all

lemma qstring_plain_Cons:
  "c \<noteq> 34 \<Longrightarrow> c \<noteq> 92 \<Longrightarrow>
   qstring (c # s) = (case qstring s of None \<Rightarrow> None | Some (a, r) \<Rightarrow> Some (c # a, r))"
  by (cases s) simp_all

lemma qstring_safe: "label_safe l \<Longrightarrow> qstring (l @ 34 # rest) = Some (l, rest)"
proof (induction l rule: label_safe.induct)
  case 1
  show ?case by (simp add: qstring_quote)
next
  case (2 c)
  then show ?case by (simp add: qstring_plain_Cons qstring_quote)
next
  case (3 c d cs)
  show ?case
  proof (cases "c = 92")
    case True
    then have d: "d = 110" and s: "label_safe cs" using "3.prems" by simp_all
    have "qstring (cs @ 34 # rest) = Some (cs, rest)"
      using "3.IH"(1) True s by simp
    then have "qstring (110 # cs @ 34 # rest) = Some (110 # cs, rest)"
      by (simp add: qstring_plain_Cons)
    then show ?thesis using True d by simp
  next
    case False
    then have c: "c \<noteq> 34" and s: "label_safe (d # cs)" using "3.prems" by simp_all
    have "qstring ((d # cs) @ 34 # rest) = Some (d # cs, rest)"
      using "3.IH"(2) False s by simp
    then show ?thesis using False c qstring_plain_Cons [of c "d # cs @ 34 # rest"] by simp
  qed
qed

lemma label_safe_plain_Cons:
  "c \<noteq> 34 \<Longrightarrow> c \<noteq> 92 \<Longrightarrow> label_safe (c # s) = label_safe s"
  by (cases s) simp_all

lemma label_safe_plain: "34 \<notin> set s \<Longrightarrow> 92 \<notin> set s \<Longrightarrow> label_safe s"
  by (induction s) (auto simp: label_safe_plain_Cons)

lemma label_safe_append: "label_safe a \<Longrightarrow> label_safe b \<Longrightarrow> label_safe (a @ b)"
proof (induction a rule: label_safe.induct)
  case 1
  then show ?case by simp
next
  case (2 c)
  then show ?case by (simp add: label_safe_plain_Cons)
next
  case (3 c d cs)
  show ?case
  proof (cases "c = 92")
    case True
    then show ?thesis using 3 by simp
  next
    case False
    then have "label_safe ((d # cs) @ b)" using 3 by simp
    then show ?thesis using False "3.prems" label_safe_plain_Cons [of c "d # cs @ b"] by simp
  qed
qed

lemma label_safe_join:
  "\<forall>l \<in> set ls. label_safe l \<Longrightarrow> label_safe (join [92, 110] ls)"
proof (induction "[92, 110] :: ustring" ls rule: join.induct)
  case 1
  show ?case by simp
next
  case (2 x)
  then show ?case by simp
next
  case (3 x y ys)
  have "label_safe ([92, 110] @ join [92, 110] (y # ys))"
    using 3 by (intro label_safe_append) simp_all
  then have "label_safe (x @ [92, 110] @ join [92, 110] (y # ys))"
    using "3.prems" by (intro label_safe_append) simp_all
  then show ?case by simp
qed

lemma split_ws_acc_chars:
  "p \<in> set (split_ws_acc acc s) \<Longrightarrow> set p \<subseteq> set acc \<union> set s"
proof (induction acc s rule: split_ws_acc.induct)
  case (1 acc)
  then show ?case by (auto split: if_splits)
next
  case (2 acc c cs)
  show ?case
  proof (cases "isspace c")
    case True
    then show ?thesis using 2 by (cases "acc = []") auto
  next
    case False
    then have "p \<in> set (split_ws_acc (acc @ [c]) cs)" using "2.prems" by simp
    then have "set p \<subseteq> set (acc @ [c]) \<union> set cs" using "2.IH"(3) False by blast
    then show ?thesis by auto
  qed
qed

lemma wrap_loop_chars:
  assumes "\<forall>l \<in> set (fst st). set l \<subseteq> A" and "set (snd st) \<subseteq> A"
    and "\<forall>w \<in> set ws. set w \<subseteq> A" and "32 \<in> A"
  shows "(\<forall>l \<in> set (fst (wrap_loop m st ws)). set l \<subseteq> A) \<and> set (snd (wrap_loop m st ws)) \<subseteq> A"
  using assms(1-3)
proof (induction ws arbitrary: st)
  case Nil
  then show ?case by simp
next
  case (Cons w ws)
  let ?line = "snd st"
  have w: "set w \<subseteq> A" using Cons.prems(3) by simp
  have "set (strip (?line @ [32] @ w)) \<subseteq> A"
    using set_strip [of "?line @ [32] @ w"] Cons.prems(2) w assms(4) by auto
  then have a: "(\<forall>l \<in> set (fst (wrap_loop m (fst st, strip (?line @ [32] @ w)) ws)). set l \<subseteq> A) \<and>
      set (snd (wrap_loop m (fst st, strip (?line @ [32] @ w)) ws)) \<subseteq> A"
    using Cons.prems by (intro Cons.IH) auto
  have b: "(\<forall>l \<in> set (fst (wrap_loop m (fst st @ [?line], w) ws)). set l \<subseteq> A) \<and>
      set (snd (wrap_loop m (fst st @ [?line], w) ws)) \<subseteq> A"
    using Cons.prems w by (intro Cons.IH) auto
  show ?case using a b by (simp add: Let_def)
qed

lemma wrap_label_safe:
  assumes "34 \<notin> set t" and "92 \<notin> set t"
  shows "label_safe (wrap_label t m)"
proof -
  let ?A = "insert 32 (set t)"
  have words: "\<forall>w \<in> set (split_ws t). set w \<subseteq> ?A"
    using split_ws_acc_chars [of _ "[]" t] by (auto simp: split_ws_def)
  have "(\<forall>l \<in> set (fst (wrap_loop m ([], []) (split_ws t))). set l \<subseteq> ?A) \<and>
      set (snd (wrap_loop m ([], []) (split_ws t))) \<subseteq> ?A"
    using words by (intro wrap_loop_chars) auto
  then have "\<forall>l \<in> set (wrap_lines t m). set l \<subseteq> ?A"
    by (auto simp: wrap_lines_def Let_def)
  then have "\<forall>l \<in> set (wrap_lines t m). 34 \<notin> set l \<and> 92 \<notin> set l"
    using assms by fastforce
  then have "\<forall>l \<in> set (wrap_lines t m). label_safe l"
    by (simp add: label_safe_plain)
  then show ?thesis
    unfolding wrap_label_def by (rule label_safe_join)
qed

lemmas dot_eval =
  is_dot_space_def is_digit_def is_alpha_def is_id_char_def valid_id_def is_id_tok_def
  dot_well_formed_def

lemma blank_graph_well_formed:
  assumes "label_safe l0" "label_safe l1" "label_safe l2" "label_safe l3"
    and "orientation = str ''TB'' \<or> orientation = str ''LR''"
  shows \<open>dot_well_formed (join [10]
      [str ''digraph G {'',
       str ''graph [rankdir='' @ orientation @
         str '', splines=true, overlap=false, nodesep=0.4, ranksep=0.7, margin=0.1];'',
       str ''node [shape=box, style=filled, fillcolor="#111827", color="#3b82f6", fontname="Helvetica", fontsize=11, fontcolor="#e5e7eb"];'',
       str ''root [label="'' @ l0 @
         str ''", shape=oval, fillcolor="#1f2937", fontsize=14, penwidth=2, color="#60a5fa"];'',
       str ''b0 [label="'' @ l1 @ str ''", fillcolor="#0b1320", fontsize=12, color="#93c5fd"];'',
       str ''root -> b0;'',
       str ''b1 [label="'' @ l2 @ str ''", fillcolor="#0b1320", fontsize=12, color="#93c5fd"];'',
       str ''root -> b1;'',
       str ''b2 [label="'' @ l3 @ str ''", fillcolor="#0b1320", fontsize=12, color="#93c5fd"];'',
       str ''root -> b2;'',
       str ''}''])\<close>
  using assms(5)
proof
  assume "orientation = str ''TB''"
  then show ?thesis
    using assms(1-4) by (simp add: str_def qstring_safe dot_eval)
next
  assume "orientation = str ''LR''"
  then show ?thesis
    using assms(1-4) by (simp add: str_def qstring_safe dot_eval)
qed

lemma build_summary_lines_blank:
  assumes "\<forall>c \<in> set summary_html. isspace c"
  shows "build_summary_lines topic summary_html leaves_per_para wrap_len orientation =
      [str ''digraph G {'', graph_line orientation, node_defaults,
       root_node (wrap_label topic wrap_len),
       branch_node (str ''b0'') (wrap_label (heads ! 0) wrap_len), edge (str ''root'') (str ''b0''),
       branch_node (str ''b1'') (wrap_label (heads ! 1) wrap_len), edge (str ''root'') (str ''b1''),
       branch_node (str ''b2'') (wrap_label (heads ! 2) wrap_len), edge (str ''root'') (str ''b2''),
       str ''}'']"
proof -
  have p: "split_paragraphs summary_html = []"
    using assms by (rule split_paragraphs_all_space)
  have n: "show_nat 0 = str ''0''" "show_nat (Suc 0) = str ''1''" "show_nat 2 = str ''2''"
    by (simp_all add: show_nat.simps str_def)
  show ?thesis
    by (simp add: build_summary_lines_def p enumerate_heads branch_lines_def n Let_def str_def)
qed

section \<open>Claims\<close>

text \<open>
  C1 (as amended).  When the question and answer lines of the reply are, in order,
  \<open>n\<close> well-formed blocks (a \<^verbatim>\<open>Q:\<close> line with a question text that is not empty, then an
  \<^verbatim>\<open>A:\<close> line), the parser asked for \<open>n\<close> cards returns exactly the \<open>n\<close> cards of the
  blocks, in the order of the reply, each field without its prefix and stripped.  Lines
  that are neither question nor answer lines may stand anywhere.
\<close>

theorem flashcards_of_well_formed_reply:
  assumes "filter (\<lambda>l. is_q_line l \<or> is_a_line l) (splitlines text) = block_lines blocks"
    and "\<forall>b \<in> set blocks. well_formed_block b"
  shows "generate_flashcards text (int (length blocks)) = map card_of_block blocks"
proof (cases "blocks = []")
  case True
  then show ?thesis by (simp add: generate_flashcards_def slice_to_def)
next
  case False
  then have "int (length (fst (([], None) :: flashcard list \<times> ustring option))) < int (length blocks)"
    by simp
  then have "flashcards_loop (int (length blocks)) ([], None) (splitlines text) =
     flashcards_loop (int (length blocks)) ([], None) (block_lines blocks)"
    using flashcards_loop_filter [of "([], None)" "int (length blocks)" "splitlines text"] assms(1)
    by simp
  also have "\<dots> = map card_of_block blocks"
    using flashcards_loop_blocks_eq [of blocks "[]" "int (length blocks)" None "[]"] assms(2) False
    by simp
  finally show ?thesis by (simp add: generate_flashcards_def slice_to_def)
qed

theorem flashcards_of_well_formed_reply_witness:
  "splitlines (str ''Q: a '' @ [10] @ str '' A: x'' @ [13, 10] @ str ''Q: b'' @ [10, 10] @ str ''A: y'') =
     [str ''Q: a '', str '' A: x'', str ''Q: b'', [], str ''A: y''] \<and>
   generate_flashcards
     (str ''Q: a '' @ [10] @ str '' A: x'' @ [13, 10] @ str ''Q: b'' @ [10, 10] @ str ''A: y'') 2 =
     [\<lparr>card_question = str ''a'', card_answer = str ''x''\<rparr>,
      \<lparr>card_question = str ''b'', card_answer = str ''y''\<rparr>]"
proof -
  let ?t = "str ''Q: a '' @ [10] @ str '' A: x'' @ [13, 10] @ str ''Q: b'' @ [10, 10] @ str ''A: y''"
  let ?blocks = "[(str ''Q: a '', str '' A: x''), (str ''Q: b'', str ''A: y'')]"
  have l: "splitlines ?t = [str ''Q: a '', str '' A: x'', str ''Q: b'', [], str ''A: y'']"
    by (simp add: string_eval)
  have f: "filter (\<lambda>l. is_q_line l \<or> is_a_line l) (splitlines ?t) = block_lines ?blocks"
    unfolding l by (simp add: flashcard_eval string_eval)
  have w: "\<forall>b \<in> set ?blocks. well_formed_block b"
    by (simp add: flashcard_eval string_eval)
  have c: "map card_of_block ?blocks =
     [\<lparr>card_question = str ''a'', card_answer = str ''x''\<rparr>,
      \<lparr>card_question = str ''b'', card_answer = str ''y''\<rparr>]"
    by (simp add: flashcard_eval string_eval)
  show ?thesis
    using flashcards_of_well_formed_reply [OF f w] l c by simp
qed

text \<open>
  C1 as stated fails for a question line with no text: the reply of the two lines
  \<^verbatim>\<open>Q:\<close> and \<^verbatim>\<open>A: x\<close> has one question line and one answer line, and the parser asked
  for one card returns none.
\<close>

theorem flashcards_empty_question_counterexample:
  "splitlines (str ''Q:'' @ [10] @ str ''A: x'') = [str ''Q:'', str ''A: x''] \<and>
   is_q_line (str ''Q:'') \<and> is_a_line (str ''A: x'') \<and>
   generate_flashcards (str ''Q:'' @ [10] @ str ''A: x'') 1 = []"
  by (simp add: flashcard_eval string_eval)

text \<open>
  C2 (as amended).  For a quiz reply block of the lines \<^verbatim>\<open>Q: qu\<close>,
  \<^verbatim>\<open>Options: A) x B) y C) z D) w\<close> and \<^verbatim>\<open>Answer: y\<close>, with a plain question text, plain
  option texts and at least one item asked for, the parser yields the one item with the
  question \<open>qu\<close>, the options \<open>[x, y, z, w]\<close> and the answer \<open>y\<close>; scoring that item
  against the choice \<open>y\<close> gives \<^verbatim>\<open>Correct\<close>, and against any of the four options other
  than \<open>y\<close> gives \<^verbatim>\<open>Wrong\<close>.
\<close>

theorem quiz_block_parsed_and_scored:
  assumes "1 \<le> n" and "plain_question qu"
    and "plain_option x" and "plain_option y" and "plain_option z" and "plain_option w"
  shows "generate_quiz (quiz_block qu x y z w) n =
       [\<lparr>quiz_question = qu, quiz_options = [x, y, z, w], quiz_answer = y\<rparr>] \<and>
     quiz_result (Some y) \<lparr>quiz_question = qu, quiz_options = [x, y, z, w], quiz_answer = y\<rparr> =
       str ''Correct'' \<and>
     (\<forall>c \<in> set [x, y, z, w]. c \<noteq> y \<longrightarrow>
        quiz_result (Some c) \<lparr>quiz_question = qu, quiz_options = [x, y, z, w], quiz_answer = y\<rparr> =
          str ''Wrong'')"
proof -
  let ?item = "\<lparr>quiz_question = qu, quiz_options = [x, y, z, w], quiz_answer = y\<rparr>"
  let ?o = "str '' A) '' @ x @ str '' B) '' @ y @ str '' C) '' @ z @ str '' D) '' @ w"
  have q: "strip qu = qu" "qu \<noteq> []" and y: "strip y = y"
    using assms by (simp_all add: plain_question_def plain_option_def)
  have s1: "quiz_step (str ''Q: '' @ qu) ([], None, []) = ([], Some qu, [])"
    using q(1) by (rule quiz_step_q)
  have s2: "quiz_step (str ''Options:'' @ ?o) ([], Some qu, []) = ([], Some qu, [x, y, z, w])"
    using parse_options_plain [OF assms(3-6)] by (simp only: quiz_step_options)
  have s3: "quiz_step (str ''Answer: '' @ y) ([], Some qu, [x, y, z, w]) = ([?item], None, [])"
    using quiz_step_answer [OF y q(2), of "[]" "[x, y, z, w]"] by simp
  have "quiz_loop n ([], None, [])
      [str ''Q: '' @ qu, str ''Options:'' @ ?o, str ''Answer: '' @ y] = [?item]"
    using assms(1) by (simp add: s1 s2 s3 Let_def)
  moreover have "slice_to n [?item] = [?item]"
  proof -
    have "1 \<le> nat n" using assms(1) by simp
    then have "take (nat n) [?item] = [?item]" by simp
    then show ?thesis using assms(1) by (simp add: slice_to_def)
  qed
  ultimately have "generate_quiz (quiz_block qu x y z w) n = [?item]"
    using quiz_block_lines [OF assms(2-6)] by (simp add: generate_quiz_def)
  then show ?thesis by (simp add: quiz_result_def str_def)
qed

theorem quiz_block_parsed_and_scored_witness:
  \<open>generate_quiz
     (str ''Q: q'' @ [10] @ str ''Options: A) x B) y C) z D) w'' @ [10] @ str ''Answer: y'') 1 =
     [\<lparr>quiz_question = str ''q'', quiz_options = [str ''x'', str ''y'', str ''z'', str ''w''],
       quiz_answer = str ''y''\<rparr>] \<and>
   quiz_result (Some (str ''y''))
     \<lparr>quiz_question = str ''q'', quiz_options = [str ''x'', str ''y'', str ''z'', str ''w''],
      quiz_answer = str ''y''\<rparr> = str ''Correct'' \<and>
   quiz_result (Some (str ''z''))
     \<lparr>quiz_question = str ''q'', quiz_options = [str ''x'', str ''y'', str ''z'', str ''w''],
      quiz_answer = str ''y''\<rparr> = str ''Wrong''\<close>
proof -
  have n: "(1 :: int) \<le> 1" by simp
  have q: "plain_question (str ''q'')"
    by (simp add: option_eval string_eval)
  have o: "plain_option (str ''x'')" "plain_option (str ''y'')" "plain_option (str ''z'')"
      "plain_option (str ''w'')"
    by (simp_all add: option_eval string_eval)
  have b: "quiz_block (str ''q'') (str ''x'') (str ''y'') (str ''z'') (str ''w'') =
      str ''Q: q'' @ [10] @ str ''Options: A) x B) y C) z D) w'' @ [10] @ str ''Answer: y''"
    by (simp add: quiz_block_def str_def)
  have d: "str ''z'' \<noteq> str ''y''" "str ''z'' \<in> set [str ''x'', str ''y'', str ''z'', str ''w'']"
    by (simp_all add: str_def)
  note th = quiz_block_parsed_and_scored [OF n q o, unfolded b]
  show ?thesis
    using conjunct1 [OF th] conjunct1 [OF conjunct2 [OF th]]
      bspec [OF conjunct2 [OF conjunct2 [OF th]] d(2)] d(1)
    by (intro conjI) blast+
qed

text \<open>
  C2 as stated fails for an option text that holds the bar: the parser splits the
  option \<^verbatim>\<open>a|b\<close> in two and the fourth option \<^verbatim>\<open>w\<close> is cut off.
\<close>

theorem quiz_block_bar_in_option_counterexample:
  "generate_quiz (quiz_block (str ''q'') (str ''a|b'') (str ''y'') (str ''z'') (str ''w'')) 1 =
     [\<lparr>quiz_question = str ''q'', quiz_options = [str ''a'', str ''b'', str ''y'', str ''z''],
       quiz_answer = str ''y''\<rparr>] \<and>
   [str ''a'', str ''b'', str ''y'', str ''z''] \<noteq> [str ''a|b'', str ''y'', str ''z'', str ''w'']"
  by (simp add: quiz_block_def quiz_eval string_eval)





text \<open>
  C4.  When the answer text of a quiz item equals none of its options, the item is scored
  \<^verbatim>\<open>Wrong\<close> whether the answer is unset or is any choice the radio button offers (the
  placeholder or one of the options).
\<close>

theorem quiz_result_wrong_when_answer_not_an_option:
  assumes "quiz_answer q \<notin> set (quiz_options q)"
  shows "quiz_result None q = str ''Wrong'' \<and>
         (\<forall>choice \<in> set (placeholder # quiz_options q).
            quiz_result (stored_answer choice) q = str ''Wrong'')"
  using assms by (auto simp: quiz_result_def stored_answer_def)


theorem quiz_result_wrong_witness:
  "quiz_answer \<lparr>quiz_question = str ''q'', quiz_options = [str ''x'', str ''y''],
                 quiz_answer = str ''z''\<rparr> \<notin> set [str ''x'', str ''y''] \<and>
   quiz_result (stored_answer (str ''x''))
     \<lparr>quiz_question = str ''q'', quiz_options = [str ''x'', str ''y''],
      quiz_answer = str ''z''\<rparr> = str ''Wrong'' \<and>
   quiz_result (stored_answer placeholder)
     \<lparr>quiz_question = str ''q'', quiz_options = [str ''x'', str ''y''],
      quiz_answer = str ''z''\<rparr> = str ''Wrong''"
proof -
  let ?q = "\<lparr>quiz_question = str ''q'', quiz_options = [str ''x'', str ''y''],
             quiz_answer = str ''z''\<rparr>"
  have h: "quiz_answer ?q \<notin> set (quiz_options ?q)"
    by (simp add: str_def)
  show ?thesis
    using h quiz_result_wrong_when_answer_not_an_option [OF h] by simp
qed




text \<open>
  C6.  The sentences of a paragraph are split only where a backslash and the letter
  \<^verbatim>\<open>s\<close> follow the punctuation, never at whitespace: the paragraph
  \<^verbatim>\<open>One. Two. Three.\<close> is one sentence, and the graph has one leaf for it under the first
  branch, labelled with the whole paragraph, where three leaves were to be expected.
\<close>

theorem build_summary_dot_sentences_not_split:
  "sentences (str ''One. Two. Three.'') = [str ''One. Two. Three.''] \<and>
   build_summary_lines (str ''T'') (str ''<p>One. Two. Three.</p><p>B.</p><p>C.</p>'') 4 24
       (str ''TB'') =
      [str ''digraph G {'', graph_line (str ''TB''), node_defaults,
       root_node (str ''T''),
       branch_node (str ''b0'') (wrap_label (heads ! 0) 24), edge (str ''root'') (str ''b0''),
       leaf_node (str ''l0_0'') (str ''One. Two. Three.''), edge (str ''b0'') (str ''l0_0''),
       branch_node (str ''b1'') (wrap_label (heads ! 1) 24), edge (str ''root'') (str ''b1''),
       leaf_node (str ''l1_0'') (str ''B.''), edge (str ''b1'') (str ''l1_0''),
       branch_node (str ''b2'') (wrap_label (heads ! 2) 24), edge (str ''root'') (str ''b2''),
       leaf_node (str ''l2_0'') (str ''C.''), edge (str ''b2'') (str ''l2_0''),
       str ''}'']"
proof -
  have p: "split_paragraphs (str ''<p>One. Two. Three.</p><p>B.</p><p>C.</p>'') =
      [str ''One. Two. Three.'', str ''B.'', str ''C.'']"
    by (simp add: split_paragraphs_def Let_def string_eval)
  have s: "sentences (str ''One. Two. Three.'') = [str ''One. Two. Three.'']"
      "sentences (str ''B.'') = [str ''B.'']" "sentences (str ''C.'') = [str ''C.'']"
    by (simp_all add: sentences_def string_eval)
  have w: "wrap_label (str ''T'') 24 = str ''T''"
      "wrap_label (shorten (str ''One. Two. Three.'') 12) 24 = str ''One. Two. Three.''"
      "wrap_label (shorten (str ''B.'') 12) 24 = str ''B.''"
      "wrap_label (shorten (str ''C.'') 12) 24 = str ''C.''"
    by (simp_all add: wrap_label_def wrap_lines_def shorten_def Let_def string_eval)
  have n: "show_nat 0 = str ''0''" "show_nat (Suc 0) = str ''1''" "show_nat 2 = str ''2''"
    by (simp_all add: show_nat.simps str_def)
  have e: "enumerate 0 [x] = [(0, x)]" for x :: ustring
    by (simp add: enumerate_eq_zip)
  have "build_summary_lines (str ''T'') (str ''<p>One. Two. Three.</p><p>B.</p><p>C.</p>'') 4 24
       (str ''TB'') =
      [str ''digraph G {'', graph_line (str ''TB''), node_defaults,
       root_node (str ''T''),
       branch_node (str ''b0'') (wrap_label (heads ! 0) 24), edge (str ''root'') (str ''b0''),
       leaf_node (str ''l0_0'') (str ''One. Two. Three.''), edge (str ''b0'') (str ''l0_0''),
       branch_node (str ''b1'') (wrap_label (heads ! 1) 24), edge (str ''root'') (str ''b1''),
       leaf_node (str ''l1_0'') (str ''B.''), edge (str ''b1'') (str ''l1_0''),
       branch_node (str ''b2'') (wrap_label (heads ! 2) 24), edge (str ''root'') (str ''b2''),
       leaf_node (str ''l2_0'') (str ''C.''), edge (str ''b2'') (str ''l2_0''),
       str ''}'']"
    unfolding build_summary_lines_def p Let_def enumerate_heads
    by (simp add: branch_lines_def leaf_lines_def Let_def s w n e slice_to_def)
      (simp add: str_def)
  then show ?thesis using s by simp
qed

text \<open>
  C7.  The quiz export escapes each field with \<open>csv_escape\<close> and then replaces every pair
  of double quotes of the finished row by one, which undoes the doubling.  For the
  question \<^verbatim>\<open>He said "hi"\<close> the row holds the quotes undoubled, where the flashcard export
  writes them doubled.
\<close>

theorem quiz_csv_row_unescapes_quotes:
  \<open>quiz_csv_row
     \<lparr>quiz_question = str ''He said "hi"'', quiz_options = [str ''a'', str ''b''],
      quiz_answer = str ''a''\<rparr> (Some (str ''a'')) =
     str ''"He said "hi"","a","a","Correct"'' @ [10] \<and>
   flashcard_csv_row \<lparr>card_question = str ''He said "hi"'', card_answer = str ''a''\<rparr> =
     str ''"He said ""hi""","a"'' @ [10]\<close>
  by (simp add: quiz_csv_row_def flashcard_csv_row_def csv_escape_def quiz_result_def string_eval)

text \<open>
  C8.  Escaping for CSV is idempotent on a text that holds no double quote and no
  newline: escaping it twice gives what escaping it once gives.  The field
  \<^verbatim>\<open>He said "hi"\<close>, a newline, \<^verbatim>\<open>bye\<close> escapes to \<^verbatim>\<open>He said ""hi"" bye\<close>: each double
  quote is doubled and the newline becomes one space.
\<close>

theorem csv_escape_idempotent_and_example:
  \<open>(34 \<notin> set t \<and> 10 \<notin> set t \<longrightarrow> csv_escape (csv_escape t) = csv_escape t) \<and>
   csv_escape (str ''He said "hi"'' @ [10] @ str ''bye'') = str ''He said ""hi"" bye''\<close>
proof
  show "34 \<notin> set t \<and> 10 \<notin> set t \<longrightarrow> csv_escape (csv_escape t) = csv_escape t"
  proof
    assume h: "34 \<notin> set t \<and> 10 \<notin> set t"
    have e: "csv_escape t = strip t"
      using h by (simp add: csv_escape_def py_replace_single_absent)
    have "set (strip t) \<subseteq> set t"
      by (rule set_strip)
    then have "34 \<notin> set (strip t)" and "10 \<notin> set (strip t)"
      using h by auto
    then have "csv_escape (strip t) = strip (strip t)"
      by (simp add: csv_escape_def py_replace_single_absent)
    then show "csv_escape (csv_escape t) = csv_escape t"
      using e by simp
  qed
next
  show \<open>csv_escape (str ''He said "hi"'' @ [10] @ str ''bye'') = str ''He said ""hi"" bye''\<close>
    by (simp add: csv_escape_def str_def strip_def lstrip_def rstrip_def isspace_def)
qed

theorem csv_escape_idempotent_witness:
  "34 \<notin> set (str ''  plain text '') \<and> 10 \<notin> set (str ''  plain text '') \<and>
   csv_escape (csv_escape (str ''  plain text '')) = csv_escape (str ''  plain text '') \<and>
   csv_escape (str ''  plain text '') = str ''plain text''"
proof -
  have a: "34 \<notin> set (str ''  plain text '') \<and> 10 \<notin> set (str ''  plain text '')"
    by (simp add: str_def)
  have b: "csv_escape (str ''  plain text '') = str ''plain text''"
    by (simp add: csv_escape_def str_def strip_def lstrip_def rstrip_def isspace_def)
  show ?thesis
    using a b csv_escape_idempotent_and_example [of "str ''  plain text ''"] by simp
qed

text \<open>
  C9.  For every label text and every maximum line length \<open>m\<close>, each line that
  wrapping produces has at most \<open>m\<close> characters or is a single word of the text, left
  unbroken on a line of its own; the label is these lines joined by \<^verbatim>\<open>\n\<close>.
\<close>

theorem wrap_label_line_length:
  assumes "l \<in> set (wrap_lines text (int m))"
  shows "(length l \<le> m \<or> l \<in> set (split_ws text)) \<and>
         wrap_label text (int m) = join [92, 110] (wrap_lines text (int m))"
proof -
  have "(\<forall>l \<in> set (fst (wrap_loop (int m) ([], []) (split_ws text))). length l \<le> m \<or> l \<in> set (split_ws text)) \<and>
        (length (snd (wrap_loop (int m) ([], []) (split_ws text))) \<le> m \<or>
         snd (wrap_loop (int m) ([], []) (split_ws text)) \<in> set (split_ws text))"
    by (rule wrap_loop_lines) auto
  then have "length l \<le> m \<or> l \<in> set (split_ws text)"
    using assms by (auto simp: wrap_lines_def Let_def split: if_splits)
  then show ?thesis by (simp add: wrap_label_def)
qed

theorem wrap_label_line_length_witness:
  "wrap_lines (str ''aaaaaaaaaa bb cc'') (int 6) = [[], str ''aaaaaaaaaa'', str ''bb cc''] \<and>
   split_ws (str ''aaaaaaaaaa bb cc'') = [str ''aaaaaaaaaa'', str ''bb'', str ''cc''] \<and>
   length (str ''bb cc'') \<le> 6 \<and>
   str ''aaaaaaaaaa'' \<in> set (split_ws (str ''aaaaaaaaaa bb cc''))"
proof -
  have e: "wrap_lines (str ''aaaaaaaaaa bb cc'') (int 6) = [[], str ''aaaaaaaaaa'', str ''bb cc'']"
    by (simp add: wrap_lines_def Let_def string_eval)
  have s: "split_ws (str ''aaaaaaaaaa bb cc'') = [str ''aaaaaaaaaa'', str ''bb'', str ''cc'']"
    by (simp add: string_eval)
  have m: "str ''aaaaaaaaaa'' \<in> set (wrap_lines (str ''aaaaaaaaaa bb cc'') (int 6))"
    using e by simp
  have "\<not> length (str ''aaaaaaaaaa'') \<le> 6"
    by (simp add: str_def)
  then have "str ''aaaaaaaaaa'' \<in> set (split_ws (str ''aaaaaaaaaa bb cc''))"
    using wrap_label_line_length [OF m] by blast
  then show ?thesis using e s by (simp add: str_def)
qed

text \<open>
  C10 (as amended).  For every topic that holds neither a double quote nor a backslash,
  every summary that holds nothing but whitespace (the empty summary included) and the
  orientation \<^verbatim>\<open>TB\<close> or \<^verbatim>\<open>LR\<close>, the summary has no paragraph and the graph text is
  the eleven lines below, joined by newlines: the three opening lines, the root node
  labelled with the wrapped topic, the three branch nodes each followed by its edge from
  the root, no leaf, and the closing brace; and this text is a well-formed graph.
\<close>

theorem build_summary_dot_blank_summary_well_formed:
  assumes "\<forall>c \<in> set summary_html. isspace c"
    and "34 \<notin> set topic" and "92 \<notin> set topic"
    and "orientation = str ''TB'' \<or> orientation = str ''LR''"
  shows \<open>split_paragraphs summary_html = [] \<and>
    build_summary_lines topic summary_html leaves_per_para wrap_len orientation =
      [str ''digraph G {'',
       str ''graph [rankdir='' @ orientation @
         str '', splines=true, overlap=false, nodesep=0.4, ranksep=0.7, margin=0.1];'',
       str ''node [shape=box, style=filled, fillcolor="#111827", color="#3b82f6", fontname="Helvetica", fontsize=11, fontcolor="#e5e7eb"];'',
       str ''root [label="'' @ wrap_label topic wrap_len @
         str ''", shape=oval, fillcolor="#1f2937", fontsize=14, penwidth=2, color="#60a5fa"];'',
       str ''b0 [label="'' @ wrap_label (str ''Definition & Building Blocks'') wrap_len @
         str ''", fillcolor="#0b1320", fontsize=12, color="#93c5fd"];'',
       str ''root -> b0;'',
       str ''b1 [label="'' @
         wrap_label (str ''Architecture '' @ [8226] @ str '' Security '' @ [8226] @ str '' Ops'')
           wrap_len @
         str ''", fillcolor="#0b1320", fontsize=12, color="#93c5fd"];'',
       str ''root -> b1;'',
       str ''b2 [label="'' @
         wrap_label (str ''Use Cases '' @ [8226] @ str '' Benefits '' @ [8226] @ str '' Costs'')
           wrap_len @
         str ''", fillcolor="#0b1320", fontsize=12, color="#93c5fd"];'',
       str ''root -> b2;'',
       str ''}''] \<and>
    build_summary_dot topic summary_html leaves_per_para wrap_len orientation =
      join [10] (build_summary_lines topic summary_html leaves_per_para wrap_len orientation) \<and>
    dot_well_formed (build_summary_dot topic summary_html leaves_per_para wrap_len orientation)\<close>
proof -
  let ?h0 = "str ''Definition & Building Blocks''"
  let ?h1 = "str ''Architecture '' @ [8226] @ str '' Security '' @ [8226] @ str '' Ops''"
  let ?h2 = "str ''Use Cases '' @ [8226] @ str '' Benefits '' @ [8226] @ str '' Costs''"
  have h: "heads ! 0 = ?h0" "heads ! 1 = ?h1" "heads ! 2 = ?h2"
    by (simp_all add: heads_def)
  have p: "split_paragraphs summary_html = []"
    using assms(1) by (rule split_paragraphs_all_space)
  have l: \<open>build_summary_lines topic summary_html leaves_per_para wrap_len orientation =
      [str ''digraph G {'',
       str ''graph [rankdir='' @ orientation @
         str '', splines=true, overlap=false, nodesep=0.4, ranksep=0.7, margin=0.1];'',
       str ''node [shape=box, style=filled, fillcolor="#111827", color="#3b82f6", fontname="Helvetica", fontsize=11, fontcolor="#e5e7eb"];'',
       str ''root [label="'' @ wrap_label topic wrap_len @
         str ''", shape=oval, fillcolor="#1f2937", fontsize=14, penwidth=2, color="#60a5fa"];'',
       str ''b0 [label="'' @ wrap_label ?h0 wrap_len @
         str ''", fillcolor="#0b1320", fontsize=12, color="#93c5fd"];'',
       str ''root -> b0;'',
       str ''b1 [label="'' @ wrap_label ?h1 wrap_len @
         str ''", fillcolor="#0b1320", fontsize=12, color="#93c5fd"];'',
       str ''root -> b1;'',
       str ''b2 [label="'' @ wrap_label ?h2 wrap_len @
         str ''", fillcolor="#0b1320", fontsize=12, color="#93c5fd"];'',
       str ''root -> b2;'',
       str ''}'']\<close>
    unfolding build_summary_lines_blank [OF assms(1)] h
    by (simp add: graph_line_def node_defaults_def root_node_def branch_node_def edge_def str_def)
  have s: "label_safe (wrap_label topic wrap_len)" "label_safe (wrap_label ?h0 wrap_len)"
      "label_safe (wrap_label ?h1 wrap_len)" "label_safe (wrap_label ?h2 wrap_len)"
    using assms(2,3) by (simp_all add: wrap_label_safe str_def)
  have w: "dot_well_formed
      (build_summary_dot topic summary_html leaves_per_para wrap_len orientation)"
    unfolding build_summary_dot_def l
    using s assms(4) by (rule blank_graph_well_formed)
  show ?thesis
    using p l w by (simp add: build_summary_dot_def)
qed

theorem build_summary_dot_blank_summary_well_formed_witness:
  \<open>build_summary_lines (str ''Binary Search'') (str ''  '' @ [10, 10] @ str '' '') 4 24
      (str ''TB'') =
      [str ''digraph G {'',
       str ''graph [rankdir=TB, splines=true, overlap=false, nodesep=0.4, ranksep=0.7, margin=0.1];'',
       str ''node [shape=box, style=filled, fillcolor="#111827", color="#3b82f6", fontname="Helvetica", fontsize=11, fontcolor="#e5e7eb"];'',
       str ''root [label="Binary Search", shape=oval, fillcolor="#1f2937", fontsize=14, penwidth=2, color="#60a5fa"];'',
       str ''b0 [label="Definition & Building'' @ [92, 110] @ str ''Blocks", fillcolor="#0b1320", fontsize=12, color="#93c5fd"];'',
       str ''root -> b0;'',
       str ''b1 [label="Architecture '' @ [8226] @ str '' Security'' @ [92, 110, 8226] @
         str '' Ops", fillcolor="#0b1320", fontsize=12, color="#93c5fd"];'',
       str ''root -> b1;'',
       str ''b2 [label="Use Cases '' @ [8226] @ str '' Benefits '' @ [8226, 92, 110] @
         str ''Costs", fillcolor="#0b1320", fontsize=12, color="#93c5fd"];'',
       str ''root -> b2;'',
       str ''}''] \<and>
   dot_well_formed
     (build_summary_dot (str ''Binary Search'') (str ''  '' @ [10, 10] @ str '' '') 4 24 (str ''TB''))\<close>
proof -
  have h: "\<forall>c \<in> set (str ''  '' @ [10, 10] @ str '' ''). isspace c"
    by (simp add: str_def isspace_def)
  have t: "34 \<notin> set (str ''Binary Search'')" "92 \<notin> set (str ''Binary Search'')"
    by (simp_all add: str_def)
  have o: "str ''TB'' = str ''TB'' \<or> str ''TB'' = str ''LR''"
    by simp
  have w: "wrap_label (str ''Binary Search'') 24 = str ''Binary Search''"
      "wrap_label (str ''Definition & Building Blocks'') 24 =
         str ''Definition & Building'' @ [92, 110] @ str ''Blocks''"
      "wrap_label (str ''Architecture '' @ [8226] @ str '' Security '' @ [8226] @ str '' Ops'') 24 =
         str ''Architecture '' @ [8226] @ str '' Security'' @ [92, 110, 8226] @ str '' Ops''"
      "wrap_label (str ''Use Cases '' @ [8226] @ str '' Benefits '' @ [8226] @ str '' Costs'') 24 =
         str ''Use Cases '' @ [8226] @ str '' Benefits '' @ [8226, 92, 110] @ str ''Costs''"
    by (simp_all add: wrap_label_def wrap_lines_def Let_def string_eval)
  note th = build_summary_dot_blank_summary_well_formed [OF h t o, of 4 24]
  have l: \<open>build_summary_lines (str ''Binary Search'') (str ''  '' @ [10, 10] @ str '' '') 4 24
      (str ''TB'') =
      [str ''digraph G {'',
       str ''graph [rankdir=TB, splines=true, overlap=false, nodesep=0.4, ranksep=0.7, margin=0.1];'',
       str ''node [shape=box, style=filled, fillcolor="#111827", color="#3b82f6", fontname="Helvetica", fontsize=11, fontcolor="#e5e7eb"];'',
       str ''root [label="Binary Search", shape=oval, fillcolor="#1f2937", fontsize=14, penwidth=2, color="#60a5fa"];'',
       str ''b0 [label="Definition & Building'' @ [92, 110] @ str ''Blocks", fillcolor="#0b1320", fontsize=12, color="#93c5fd"];'',
       str ''root -> b0;'',
       str ''b1 [label="Architecture '' @ [8226] @ str '' Security'' @ [92, 110, 8226] @
         str '' Ops", fillcolor="#0b1320", fontsize=12, color="#93c5fd"];'',
       str ''root -> b1;'',
       str ''b2 [label="Use Cases '' @ [8226] @ str '' Benefits '' @ [8226, 92, 110] @
         str ''Costs", fillcolor="#0b1320", fontsize=12, color="#93c5fd"];'',
       str ''root -> b2;'',
       str ''}'']\<close>
    unfolding conjunct1 [OF conjunct2 [OF th]] w by (simp add: str_def)
  show ?thesis
    using l conjunct2 [OF conjunct2 [OF conjunct2 [OF th]]] by blast
qed

text \<open>
  C10 as stated fails for a topic that holds a double quote.  The builder copies every
  label between double quotes as it is, so the topic \<^verbatim>\<open>a"b\<close> closes the label of the root
  after \<^verbatim>\<open>a\<close>: its line is not a statement of the language and the text is not a
  well-formed graph.
\<close>

theorem build_summary_dot_quote_in_topic_counterexample:
  \<open>build_summary_lines (str ''a"b'') [] 4 24 (str ''TB'') ! 3 =
     str ''root [label="a"b", shape=oval, fillcolor="#1f2937", fontsize=14, penwidth=2, color="#60a5fa"];'' \<and>
   \<not> dot_well_formed (build_summary_dot (str ''a"b'') [] 4 24 (str ''TB''))\<close>
proof -
  have h: "\<forall>c \<in> set ([] :: ustring). isspace c"
    by simp
  have w: \<open>wrap_label (str ''a"b'') 24 = str ''a"b''\<close>
      "wrap_label (heads ! 0) 24 = str ''Definition & Building'' @ [92, 110] @ str ''Blocks''"
      "wrap_label (heads ! 1) 24 =
         str ''Architecture '' @ [8226] @ str '' Security'' @ [92, 110, 8226] @ str '' Ops''"
      "wrap_label (heads ! 2) 24 =
         str ''Use Cases '' @ [8226] @ str '' Benefits '' @ [8226, 92, 110] @ str ''Costs''"
    by (simp_all add: wrap_label_def wrap_lines_def heads_def Let_def string_eval)
  have l: \<open>build_summary_lines (str ''a"b'') [] 4 24 (str ''TB'') =
      [str ''digraph G {'', graph_line (str ''TB''), node_defaults,
       root_node (str ''a"b''),
       branch_node (str ''b0'') (str ''Definition & Building'' @ [92, 110] @ str ''Blocks''),
       edge (str ''root'') (str ''b0''),
       branch_node (str ''b1'')
         (str ''Architecture '' @ [8226] @ str '' Security'' @ [92, 110, 8226] @ str '' Ops''),
       edge (str ''root'') (str ''b1''),
       branch_node (str ''b2'')
         (str ''Use Cases '' @ [8226] @ str '' Benefits '' @ [8226, 92, 110] @ str ''Costs''),
       edge (str ''root'') (str ''b2''),
       str ''}'']\<close>
    unfolding build_summary_lines_blank [OF h] w ..
  have a: \<open>build_summary_lines (str ''a"b'') [] 4 24 (str ''TB'') ! 3 =
     str ''root [label="a"b", shape=oval, fillcolor="#1f2937", fontsize=14, penwidth=2, color="#60a5fa"];''\<close>
    unfolding l by (simp add: root_node_def str_def)
  have b: \<open>\<not> dot_well_formed (build_summary_dot (str ''a"b'') [] 4 24 (str ''TB''))\<close>
    unfolding build_summary_dot_def l
    by (simp add: graph_line_def node_defaults_def root_node_def branch_node_def edge_def str_def
        dot_eval)
  show ?thesis using a b by blast
qed

end
